theory Spec2Isabelle
  imports Main "HOL-Library.Word"
begin

section \<open>Values of the compiler: types, syntax tree, ops\<close>

text \<open>Modelled from the spec: the interface \<open>Type\<close> (the spec's ValueType) is declared outside
  \<open>compile.go\<close>. It is an opaque tag; the compiler only asks whether a tag is the closure type.
  A Go value of the interface is either one of these tags or \<open>nil\<close>, so a value of Go type
  \<open>Type\<close> is a \<open>Type option\<close> here, \<open>None\<close> being \<open>nil\<close>.\<close>

datatype Type = StringType | ClosureType | OtherType nat

text \<open>A Go \<open>map[string]Type\<close>: a key may be absent (\<open>None\<close>), or present with a value that is
  a tag or the nil interface. Reading a map at an absent key gives the zero value, nil.\<close>

type_synonym scope = "string \<Rightarrow> Type option option"

definition lookupType :: "scope \<Rightarrow> string \<Rightarrow> Type option" where
  "lookupType m name = (case m name of None \<Rightarrow> None | Some t \<Rightarrow> t)"

text \<open>Modelled from the spec: the syntax tree of package \<open>parse\<close>, with the fields that
  \<open>compile.go\<close> reads. \<open>Pos\<close> is a byte offset. A \<open>PrimaryNode\<close> carries its \<open>Typ\<close> and the
  node that belongs to it; \<open>BadPrimary\<close> is a \<open>Typ\<close> outside the seven known ones, and
  \<open>BadRedir\<close> a redirection that is none of the three known variants. The result of
  \<open>Fd()\<close> is a \<open>uintptr\<close>, a 64-bit word.\<close>

type_synonym Pos = int

datatype Sigil = NoSigil | SigilChar char

datatype ChunkNode = ChunkNode "PipelineNode list"
  and ClosureNode = ClosureNode ChunkNode
  and PipelineNode = PipelineNode Pos "FormNode list"
  and FormNode = FormNode Pos CompoundNode SpacedNode "Redir list"
  and Redir =
      CloseRedir "64 word"
    | FdRedir "64 word" "64 word"
    | FilenameRedir Pos "64 word" int CompoundNode
    | BadRedir "64 word"
  and SpacedNode = SpacedNode "CompoundNode list"
  and CompoundNode = CompoundNode Pos Sigil "SubscriptNode list"
  and SubscriptNode = SubscriptNode PrimaryNode "CompoundNode option"
  and TablePair = TablePair CompoundNode CompoundNode
  and PrimaryNode =
      StringPrimary Pos string
    | VariablePrimary Pos string
    | TablePrimary Pos "CompoundNode list" "TablePair list"
    | ClosurePrimary Pos ClosureNode
    | ListPrimary Pos SpacedNode
    | ChanCapturePrimary Pos PipelineNode
    | StatusCapturePrimary Pos PipelineNode
    | BadPrimary Pos nat

fun Fd :: "Redir \<Rightarrow> 64 word" where
  "Fd (CloseRedir fd) = fd"
| "Fd (FdRedir fd oldFd) = fd"
| "Fd (FilenameRedir p fd flag fname) = fd"
| "Fd (BadRedir fd) = fd"

text \<open>The field \<open>Pos\<close> of a primary and of a compound.\<close>

fun PrimaryNode_Pos :: "PrimaryNode \<Rightarrow> Pos" where
  "PrimaryNode_Pos (StringPrimary p txt) = p"
| "PrimaryNode_Pos (VariablePrimary p nm) = p"
| "PrimaryNode_Pos (TablePrimary p lst dict) = p"
| "PrimaryNode_Pos (ClosurePrimary p cn) = p"
| "PrimaryNode_Pos (ListPrimary p sn) = p"
| "PrimaryNode_Pos (ChanCapturePrimary p pn) = p"
| "PrimaryNode_Pos (StatusCapturePrimary p pn) = p"
| "PrimaryNode_Pos (BadPrimary p typ) = p"

fun CompoundNode_Pos :: "CompoundNode \<Rightarrow> Pos" where
  "CompoundNode_Pos (CompoundNode p sigil sns) = p"

text \<open>The ephemeral state of a \<open>Compiler\<close>.\<close>

record compilerEphemeral =
  name :: string
  text' :: string
  scopes :: "scope list"
  enclosed :: scope

text \<open>Modelled from the spec: \<open>util.Panic\<close> raises an exception that \<open>util.Recover\<close> turns
  into the error returned by \<open>Compile\<close>; the error carries name, text, byte offset and
  message. A Go \<open>panic\<close> with any other value is not such an exception.\<close>

record ContextualError =
  errName :: string
  errText :: string
  errPos :: int
  errMsg :: string

datatype panicValue =
  BadRedirType | BadPrimaryNodeType nat | IndexOutOfRange | NilDereference

datatype failure = Exception ContextualError | RuntimePanic panicValue

text \<open>Modelled from the spec: the registries of builtin functions and special forms are
  tables outside \<open>compile.go\<close>. A special form is given the compiler and the raw form node
  and returns its own sub-op, a \<open>strOp\<close>; it may use the compiler's state and may fail.\<close>

datatype strOp = StrOp nat

datatype builtinFunc = BuiltinFunc nat

record builtinSpecial =
  compile :: "compilerEphemeral \<Rightarrow> FormNode \<Rightarrow> failure + (strOp \<times> compilerEphemeral)"

datatype commandType =
    commandBuiltinFunction
  | commandBuiltinSpecial
  | commandDefinedFunction
  | commandClosure
  | commandExternal

record commandResolution =
  commandType :: commandType
  builtinFunc :: "builtinFunc option"
  builtinSpecial :: "builtinSpecial option"
  specialOp :: "strOp option"

text \<open>The zero value \<open>&commandResolution{}\<close>: the first constant of the enumeration and
  nil pointers.\<close>

definition emptyResolution :: commandResolution where
  "emptyResolution =
     \<lparr>commandType = commandBuiltinFunction, builtinFunc = None,
      builtinSpecial = None, specialOp = None\<rparr>"

text \<open>Modelled from the spec: the op combinators (\<open>combineChunk\<close>, \<open>combineClosure\<close>,
  \<open>combinePipeline\<close>, \<open>combineForm\<close>, \<open>combineSpaced\<close>, \<open>combineCompound\<close>,
  \<open>combineSubscript\<close>, \<open>combineTable\<close>, \<open>combineChanCapture\<close>, \<open>makeString\<close>) are pure
  constructors that assemble an op from the ops of the children and the resolved metadata.
  An op is therefore the term that says which combinator built it from what. A port op is
  the closure that \<open>compileRedir\<close> returns, named by the variant it was built for. The
  \<open>tlist\<close> of a form is absent (the zero value) when a special form compiled the arguments;
  a slot of the port table is \<open>None\<close> when it holds the nil port op.\<close>

datatype valuesOp =
    MakeString string
  | MakeVar string Pos
  | CombineCompound "valuesOp list"
  | CombineSpaced "valuesOp list"
  | CombineSubscript valuesOp valuesOp Pos Pos
  | CombineTable valuesOp "valuesOp list" "valuesOp list" Pos
  | CombineClosure "valuesOp list" scope
  | CombineChanCapture valuesOp
  | CombinePipeline "stateUpdatesOp list" Pos
  and stateUpdatesOp =
    CombineForm valuesOp "valuesOp option" "portOp option list" commandResolution Pos
  and portOp =
    ClosePort
  | FdPort int
  | FilenamePort valuesOp Pos int

datatype Op = CombineChunk "valuesOp list"

section \<open>The scope stack\<close>

definition startCompile :: "string \<Rightarrow> string \<Rightarrow> scope \<Rightarrow> compilerEphemeral" where
  "startCompile nm txt sc = \<lparr>name = nm, text' = txt, scopes = [sc], enclosed = Map.empty\<rparr>"

definition pushScope :: "compilerEphemeral \<Rightarrow> compilerEphemeral" where
  "pushScope cp = cp\<lparr>scopes := scopes cp @ [Map.empty]\<rparr>"

text \<open>The four operations below index the stack at \<open>len(cp.scopes)-1\<close>; on an empty stack
  that index is out of range and Go panics. A frame is taken to be a map that exists: a
  write to a nil map, which only a nil root scope of the caller could be, is not modelled.\<close>

definition popScope :: "compilerEphemeral \<Rightarrow> failure + compilerEphemeral" where
  "popScope cp =
     (if scopes cp = [] then Inl (RuntimePanic IndexOutOfRange)
      else Inr (cp\<lparr>scopes := butlast (scopes cp)\<rparr>))"

definition pushVar :: "compilerEphemeral \<Rightarrow> string \<Rightarrow> Type option \<Rightarrow> failure + compilerEphemeral" where
  "pushVar cp nm t =
     (if scopes cp = [] then Inl (RuntimePanic IndexOutOfRange)
      else Inr (cp\<lparr>scopes := butlast (scopes cp) @ [(last (scopes cp))(nm \<mapsto> t)]\<rparr>))"

definition popVar :: "compilerEphemeral \<Rightarrow> string \<Rightarrow> failure + compilerEphemeral" where
  "popVar cp nm =
     (if scopes cp = [] then Inl (RuntimePanic IndexOutOfRange)
      else Inr (cp\<lparr>scopes := butlast (scopes cp) @ [(last (scopes cp))(nm := None)]\<rparr>))"

definition hasVarOnThisScope :: "compilerEphemeral \<Rightarrow> string \<Rightarrow> failure + bool" where
  "hasVarOnThisScope cp nm =
     (if scopes cp = [] then Inl (RuntimePanic IndexOutOfRange)
      else Inr (last (scopes cp) nm \<noteq> None))"

definition errorf :: "compilerEphemeral \<Rightarrow> Pos \<Rightarrow> string \<Rightarrow> failure" where
  "errorf cp p msg =
     Exception \<lparr>errName = name cp, errText = text' cp, errPos = p, errMsg = msg\<rparr>"

text \<open>The loop of \<open>ResolveVar\<close>, counting down: \<open>ResolveVar_loop cp nm thisScope (Suc i)\<close>
  is the iteration at index \<open>i\<close>, and \<open>0\<close> is the exit with \<open>i = -1\<close>.\<close>

fun ResolveVar_loop ::
  "compilerEphemeral \<Rightarrow> string \<Rightarrow> int \<Rightarrow> nat \<Rightarrow> Type option \<times> compilerEphemeral" where
  "ResolveVar_loop cp nm thisScope 0 = (None, cp)"
| "ResolveVar_loop cp nm thisScope (Suc i) =
     (case lookupType (scopes cp ! i) nm of
        Some t \<Rightarrow>
          (Some t,
           if int i < thisScope then cp\<lparr>enclosed := (enclosed cp)(nm \<mapsto> Some t)\<rparr> else cp)
      | None \<Rightarrow> ResolveVar_loop cp nm thisScope i)"

definition ResolveVar :: "compilerEphemeral \<Rightarrow> string \<Rightarrow> Type option \<times> compilerEphemeral" where
  "ResolveVar cp nm =
     ResolveVar_loop cp nm (int (length (scopes cp)) - 1) (length (scopes cp))"

definition mustResolveVar ::
  "compilerEphemeral \<Rightarrow> string \<Rightarrow> Pos \<Rightarrow> failure + (Type \<times> compilerEphemeral)" where
  "mustResolveVar cp nm p =
     (case ResolveVar cp nm of
        (Some t, cp') \<Rightarrow> Inr (t, cp')
      | (None, cp') \<Rightarrow> Inl (errorf cp' p (''undefined variable $'' @ nm)))"

section \<open>Command resolution\<close>

definition resolveCommand ::
  "(string \<rightharpoonup> builtinSpecial) \<Rightarrow> (string \<rightharpoonup> builtinFunc) \<Rightarrow>
   compilerEphemeral \<Rightarrow> string \<Rightarrow> commandResolution \<Rightarrow> commandResolution \<times> compilerEphemeral" where
  "resolveCommand builtinSpecials builtinFuncs cp nm cr =
     (case ResolveVar cp (''fn-'' @ nm) of (t, cp') \<Rightarrow>
        (if t = Some ClosureType then cr\<lparr>commandType := commandDefinedFunction\<rparr>
         else case builtinSpecials nm of
           Some bi \<Rightarrow> cr\<lparr>commandType := commandBuiltinSpecial, builtinSpecial := Some bi\<rparr>
         | None \<Rightarrow>
            (case builtinFuncs nm of
               Some bi \<Rightarrow> cr\<lparr>commandType := commandBuiltinFunction, builtinFunc := Some bi\<rparr>
             | None \<Rightarrow> cr\<lparr>commandType := commandExternal\<rparr>),
         cp'))"

section \<open>The node compiler\<close>

text \<open>The first loop of \<open>compileForm\<close> over the redirections: the size of the port table,
  a \<open>uintptr\<close>.\<close>

fun nports :: "64 word \<Rightarrow> Redir list \<Rightarrow> 64 word" where
  "nports n [] = n"
| "nports n (rd # rds) = nports (if n < Fd rd + 1 then Fd rd + 1 else n) rds"

text \<open>The \<open>switch command.Typ\<close> of \<open>compileForm\<close>, which fills the resolution.\<close>

definition compileForm_switch ::
  "(string \<rightharpoonup> builtinSpecial) \<Rightarrow> (string \<rightharpoonup> builtinFunc) \<Rightarrow>
   compilerEphemeral \<Rightarrow> Pos \<Rightarrow> PrimaryNode \<Rightarrow> failure + (commandResolution \<times> compilerEphemeral)" where
  "compileForm_switch builtinSpecials builtinFuncs cp cpos command =
     (case command of
        StringPrimary p txt \<Rightarrow>
          Inr (resolveCommand builtinSpecials builtinFuncs cp txt emptyResolution)
      | ClosurePrimary p cn \<Rightarrow> Inr (emptyResolution\<lparr>commandType := commandClosure\<rparr>, cp)
      | _ \<Rightarrow> Inl (errorf cp cpos ''command must be a string or closure''))"

text \<open>The loop of \<open>compilePrimary\<close> over the capture of a closure: every name of the capture
  that the innermost frame does not hold as a key is stored in \<open>cp.enclosed\<close>. The loop
  body runs once per key, so \<open>hasVarOnThisScope\<close> indexes the stack only when the capture
  has a key.\<close>

definition compilePrimary_merge :: "compilerEphemeral \<Rightarrow> scope \<Rightarrow> failure + compilerEphemeral" where
  "compilePrimary_merge cp enc =
     (if scopes cp = [] \<and> enc \<noteq> Map.empty then Inl (RuntimePanic IndexOutOfRange)
      else Inr (cp\<lparr>enclosed :=
        (\<lambda>nm. if enc nm \<noteq> None \<and> last (scopes cp) nm = None then enc nm else enclosed cp nm)\<rparr>))"

text \<open>Modelled from the spec: \<open>makeVar\<close> is outside \<open>compile.go\<close>. The spec's rule for a
  variable primary: resolve the name via the scope stack (recording capture as needed),
  error if unresolved, and produce an op that reads the named binding at runtime.\<close>

definition makeVar :: "compilerEphemeral \<Rightarrow> string \<Rightarrow> Pos \<Rightarrow> failure + (valuesOp \<times> compilerEphemeral)" where
  "makeVar cp nm p =
     (case mustResolveVar cp nm p of
        Inl e \<Rightarrow> Inl e
      | Inr (t, cp') \<Rightarrow> Inr (MakeVar nm p, cp'))"

text \<open>Every compiling function takes the two registries and the compiler's state, and
  returns the op with the state after it, or the failure that stopped it. A \<open>for\<close> loop
  that fills a slice of ops is the function on the list of nodes next to it. In
  \<open>ports[rd.Fd()] = cp.compileRedir(rd)\<close> Go evaluates the call first and checks the index
  when it assigns, so \<open>compileRedirs\<close> compiles the redirection before it tests the index.
  A type assertion on \<open>fn.Node\<close> cannot fail here, since a primary holds the node of its
  \<open>Typ\<close>.\<close>

function (sequential) compilePipelines ::
    "(string \<rightharpoonup> builtinSpecial) \<Rightarrow> (string \<rightharpoonup> builtinFunc) \<Rightarrow>
     compilerEphemeral \<Rightarrow> PipelineNode list \<Rightarrow> failure + (valuesOp list \<times> compilerEphemeral)"
  and compileClosure ::
    "(string \<rightharpoonup> builtinSpecial) \<Rightarrow> (string \<rightharpoonup> builtinFunc) \<Rightarrow>
     compilerEphemeral \<Rightarrow> ClosureNode \<Rightarrow> failure + ((valuesOp \<times> scope) \<times> compilerEphemeral)"
  and compilePipeline ::
    "(string \<rightharpoonup> builtinSpecial) \<Rightarrow> (string \<rightharpoonup> builtinFunc) \<Rightarrow>
     compilerEphemeral \<Rightarrow> PipelineNode \<Rightarrow> failure + (valuesOp \<times> compilerEphemeral)"
  and compileForms ::
    "(string \<rightharpoonup> builtinSpecial) \<Rightarrow> (string \<rightharpoonup> builtinFunc) \<Rightarrow>
     compilerEphemeral \<Rightarrow> FormNode list \<Rightarrow> failure + (stateUpdatesOp list \<times> compilerEphemeral)"
  and compileForm ::
    "(string \<rightharpoonup> builtinSpecial) \<Rightarrow> (string \<rightharpoonup> builtinFunc) \<Rightarrow>
     compilerEphemeral \<Rightarrow> FormNode \<Rightarrow> failure + (stateUpdatesOp \<times> compilerEphemeral)"
  and compileRedirs ::
    "(string \<rightharpoonup> builtinSpecial) \<Rightarrow> (string \<rightharpoonup> builtinFunc) \<Rightarrow>
     compilerEphemeral \<Rightarrow> portOp option list \<Rightarrow> Redir list \<Rightarrow>
     failure + (portOp option list \<times> compilerEphemeral)"
  and compileRedir ::
    "(string \<rightharpoonup> builtinSpecial) \<Rightarrow> (string \<rightharpoonup> builtinFunc) \<Rightarrow>
     compilerEphemeral \<Rightarrow> Redir \<Rightarrow> failure + (portOp \<times> compilerEphemeral)"
  and compileCompounds_loop ::
    "(string \<rightharpoonup> builtinSpecial) \<Rightarrow> (string \<rightharpoonup> builtinFunc) \<Rightarrow>
     compilerEphemeral \<Rightarrow> CompoundNode list \<Rightarrow> failure + (valuesOp list \<times> compilerEphemeral)"
  and compileCompounds ::
    "(string \<rightharpoonup> builtinSpecial) \<Rightarrow> (string \<rightharpoonup> builtinFunc) \<Rightarrow>
     compilerEphemeral \<Rightarrow> CompoundNode list \<Rightarrow> failure + (valuesOp \<times> compilerEphemeral)"
  and compileSpaced ::
    "(string \<rightharpoonup> builtinSpecial) \<Rightarrow> (string \<rightharpoonup> builtinFunc) \<Rightarrow>
     compilerEphemeral \<Rightarrow> SpacedNode \<Rightarrow> failure + (valuesOp \<times> compilerEphemeral)"
  and compileCompound ::
    "(string \<rightharpoonup> builtinSpecial) \<Rightarrow> (string \<rightharpoonup> builtinFunc) \<Rightarrow>
     compilerEphemeral \<Rightarrow> CompoundNode \<Rightarrow> failure + (valuesOp \<times> compilerEphemeral)"
  and compileSubscripts ::
    "(string \<rightharpoonup> builtinSpecial) \<Rightarrow> (string \<rightharpoonup> builtinFunc) \<Rightarrow>
     compilerEphemeral \<Rightarrow> SubscriptNode list \<Rightarrow> failure + (valuesOp list \<times> compilerEphemeral)"
  and compileSubscript ::
    "(string \<rightharpoonup> builtinSpecial) \<Rightarrow> (string \<rightharpoonup> builtinFunc) \<Rightarrow>
     compilerEphemeral \<Rightarrow> SubscriptNode \<Rightarrow> failure + (valuesOp \<times> compilerEphemeral)"
  and compileTablePairs ::
    "(string \<rightharpoonup> builtinSpecial) \<Rightarrow> (string \<rightharpoonup> builtinFunc) \<Rightarrow>
     compilerEphemeral \<Rightarrow> TablePair list \<Rightarrow>
     failure + ((valuesOp list \<times> valuesOp list) \<times> compilerEphemeral)"
  and compilePrimary ::
    "(string \<rightharpoonup> builtinSpecial) \<Rightarrow> (string \<rightharpoonup> builtinFunc) \<Rightarrow>
     compilerEphemeral \<Rightarrow> PrimaryNode \<Rightarrow> failure + (valuesOp \<times> compilerEphemeral)"
where
  "compilePipelines bs bf cp [] = Inr ([], cp)"
| "compilePipelines bs bf cp (pn # pns) =
     (case compilePipeline bs bf cp pn of
        Inl e \<Rightarrow> Inl e
      | Inr (op, cp1) \<Rightarrow>
          (case compilePipelines bs bf cp1 pns of
             Inl e \<Rightarrow> Inl e
           | Inr (ops, cp2) \<Rightarrow> Inr (op # ops, cp2)))"
| "compileClosure bs bf cp (ClosureNode (ChunkNode pns)) =
     (case compilePipelines bs bf (pushScope cp) pns of
        Inl e \<Rightarrow> Inl e
      | Inr (ops, cp1) \<Rightarrow>
          (case popScope (cp1\<lparr>enclosed := Map.empty\<rparr>) of
             Inl e \<Rightarrow> Inl e
           | Inr cp2 \<Rightarrow> Inr ((CombineClosure ops (enclosed cp1), enclosed cp1), cp2)))"
| "compilePipeline bs bf cp (PipelineNode p fns) =
     (case compileForms bs bf cp fns of
        Inl e \<Rightarrow> Inl e
      | Inr (ops, cp1) \<Rightarrow> Inr (CombinePipeline ops p, cp1))"
| "compileForms bs bf cp [] = Inr ([], cp)"
| "compileForms bs bf cp (fn # fns) =
     (case compileForm bs bf cp fn of
        Inl e \<Rightarrow> Inl e
      | Inr (op, cp1) \<Rightarrow>
          (case compileForms bs bf cp1 fns of
             Inl e \<Rightarrow> Inl e
           | Inr (ops, cp2) \<Rightarrow> Inr (op # ops, cp2)))"
| "compileForm bs bf cp (FormNode p (CompoundNode cpos sigil nodes) args redirs) =
     (case nodes of
        [SubscriptNode command None] \<Rightarrow>
          (case compilePrimary bs bf cp command of
             Inl e \<Rightarrow> Inl e
           | Inr (cmdOp, cp1) \<Rightarrow>
          (case compileForm_switch bs bf cp1 cpos command of
             Inl e \<Rightarrow> Inl e
           | Inr (resolution, cp2) \<Rightarrow>
          (case compileRedirs bs bf cp2 (replicate (unat (nports 0 redirs)) None) redirs of
             Inl e \<Rightarrow> Inl e
           | Inr (ports, cp3) \<Rightarrow>
              if commandType resolution = commandBuiltinSpecial then
                (case builtinSpecial resolution of
                   None \<Rightarrow> Inl (RuntimePanic NilDereference)
                 | Some bi \<Rightarrow>
                    (case compile bi cp3 (FormNode p (CompoundNode cpos sigil nodes) args redirs) of
                       Inl e \<Rightarrow> Inl e
                     | Inr (sop, cp4) \<Rightarrow>
                         Inr (CombineForm cmdOp None ports
                                (resolution\<lparr>specialOp := Some sop\<rparr>) p, cp4)))
              else
                (case compileSpaced bs bf cp3 args of
                   Inl e \<Rightarrow> Inl e
                 | Inr (tlist, cp4) \<Rightarrow>
                     Inr (CombineForm cmdOp (Some tlist) ports resolution p, cp4)))))
      | _ \<Rightarrow> Inl (errorf cp cpos ''command must be a string or closure''))"
| "compileRedirs bs bf cp ports [] = Inr (ports, cp)"
| "compileRedirs bs bf cp ports (rd # rds) =
     (case compileRedir bs bf cp rd of
        Inl e \<Rightarrow> Inl e
      | Inr (pop, cp1) \<Rightarrow>
          if unat (Fd rd) < length ports
          then compileRedirs bs bf cp1 (ports[unat (Fd rd) := Some pop]) rds
          else Inl (RuntimePanic IndexOutOfRange))"
| "compileRedir bs bf cp (CloseRedir fd) = Inr (ClosePort, cp)"
| "compileRedir bs bf cp (FdRedir fd oldFd) = Inr (FdPort (sint oldFd), cp)"
| "compileRedir bs bf cp (FilenameRedir p fd flag fname) =
     (case compileCompound bs bf cp fname of
        Inl e \<Rightarrow> Inl e
      | Inr (fnameOp, cp1) \<Rightarrow> Inr (FilenamePort fnameOp p flag, cp1))"
| "compileRedir bs bf cp (BadRedir fd) = Inl (RuntimePanic BadRedirType)"
| "compileCompounds_loop bs bf cp [] = Inr ([], cp)"
| "compileCompounds_loop bs bf cp (tn # tns) =
     (case compileCompound bs bf cp tn of
        Inl e \<Rightarrow> Inl e
      | Inr (op, cp1) \<Rightarrow>
          (case compileCompounds_loop bs bf cp1 tns of
             Inl e \<Rightarrow> Inl e
           | Inr (ops, cp2) \<Rightarrow> Inr (op # ops, cp2)))"
| "compileCompounds bs bf cp tns =
     (case compileCompounds_loop bs bf cp tns of
        Inl e \<Rightarrow> Inl e
      | Inr (ops, cp1) \<Rightarrow> Inr (CombineSpaced ops, cp1))"
| "compileSpaced bs bf cp (SpacedNode tns) = compileCompounds bs bf cp tns"
| "compileCompound bs bf cp (CompoundNode p sigil sns) =
     (case compileSubscripts bs bf cp sns of
        Inl e \<Rightarrow> Inl e
      | Inr (ops, cp1) \<Rightarrow>
          (case sigil of
             NoSigil \<Rightarrow> Inr (CombineCompound ops, cp1)
           | SigilChar c \<Rightarrow>
              (case resolveCommand bs bf cp1 [c] emptyResolution of
                 (cr, cp2) \<Rightarrow>
                   Inr (CombineChanCapture
                          (CombinePipeline
                             [CombineForm (MakeString [c]) (Some (CombineCompound ops)) [] cr p] p),
                        cp2))))"
| "compileSubscripts bs bf cp [] = Inr ([], cp)"
| "compileSubscripts bs bf cp (sn # sns) =
     (case compileSubscript bs bf cp sn of
        Inl e \<Rightarrow> Inl e
      | Inr (op, cp1) \<Rightarrow>
          (case compileSubscripts bs bf cp1 sns of
             Inl e \<Rightarrow> Inl e
           | Inr (ops, cp2) \<Rightarrow> Inr (op # ops, cp2)))"
| "compileSubscript bs bf cp (SubscriptNode left None) = compilePrimary bs bf cp left"
| "compileSubscript bs bf cp (SubscriptNode left (Some right)) =
     (case compilePrimary bs bf cp left of
        Inl e \<Rightarrow> Inl e
      | Inr (leftOp, cp1) \<Rightarrow>
          (case compileCompound bs bf cp1 right of
             Inl e \<Rightarrow> Inl e
           | Inr (rightOp, cp2) \<Rightarrow>
               Inr (CombineSubscript leftOp rightOp (PrimaryNode_Pos left) (CompoundNode_Pos right),
                    cp2)))"
| "compileTablePairs bs bf cp [] = Inr (([], []), cp)"
| "compileTablePairs bs bf cp (TablePair k v # tps) =
     (case compileCompound bs bf cp k of
        Inl e \<Rightarrow> Inl e
      | Inr (kOp, cp1) \<Rightarrow>
          (case compileCompound bs bf cp1 v of
             Inl e \<Rightarrow> Inl e
           | Inr (vOp, cp2) \<Rightarrow>
               (case compileTablePairs bs bf cp2 tps of
                  Inl e \<Rightarrow> Inl e
                | Inr ((keys, vals), cp3) \<Rightarrow> Inr ((kOp # keys, vOp # vals), cp3))))"
| "compilePrimary bs bf cp (StringPrimary p txt) = Inr (MakeString txt, cp)"
| "compilePrimary bs bf cp (VariablePrimary p nm) = makeVar cp nm p"
| "compilePrimary bs bf cp (TablePrimary p lst dict) =
     (case compileCompounds bs bf cp lst of
        Inl e \<Rightarrow> Inl e
      | Inr (listOp, cp1) \<Rightarrow>
          (case compileTablePairs bs bf cp1 dict of
             Inl e \<Rightarrow> Inl e
           | Inr ((keys, vals), cp2) \<Rightarrow> Inr (CombineTable listOp keys vals p, cp2)))"
| "compilePrimary bs bf cp (ClosurePrimary p cn) =
     (case compileClosure bs bf cp cn of
        Inl e \<Rightarrow> Inl e
      | Inr ((op, enc), cp1) \<Rightarrow>
          (case compilePrimary_merge cp1 enc of
             Inl e \<Rightarrow> Inl e
           | Inr cp2 \<Rightarrow> Inr (op, cp2)))"
| "compilePrimary bs bf cp (ListPrimary p sn) = compileSpaced bs bf cp sn"
| "compilePrimary bs bf cp (ChanCapturePrimary p pn) =
     (case compilePipeline bs bf cp pn of
        Inl e \<Rightarrow> Inl e
      | Inr (op, cp1) \<Rightarrow> Inr (CombineChanCapture op, cp1))"
| "compilePrimary bs bf cp (StatusCapturePrimary p pn) = compilePipeline bs bf cp pn"
| "compilePrimary bs bf cp (BadPrimary p typ) = Inl (RuntimePanic (BadPrimaryNodeType typ))"
  by pat_completeness auto

termination
  by size_change

definition compileChunk ::
  "(string \<rightharpoonup> builtinSpecial) \<Rightarrow> (string \<rightharpoonup> builtinFunc) \<Rightarrow>
   compilerEphemeral \<Rightarrow> ChunkNode \<Rightarrow> failure + (Op \<times> compilerEphemeral)" where
  "compileChunk bs bf cp cn =
     (case cn of ChunkNode pns \<Rightarrow>
        (case compilePipelines bs bf cp pns of
           Inl e \<Rightarrow> Inl e
         | Inr (ops, cp1) \<Rightarrow> Inr (CombineChunk ops, cp1)))"

text \<open>\<open>Compile\<close> returns the pair \<open>(op, err)\<close>, or does not return because a panic that is not
  an exception of \<open>util.Panic\<close> passes through \<open>util.Recover\<close>. The deferred
  \<open>stopCompile\<close> empties the compiler's state in every case, so no state is returned.\<close>

definition Compile ::
  "(string \<rightharpoonup> builtinSpecial) \<Rightarrow> (string \<rightharpoonup> builtinFunc) \<Rightarrow>
   string \<Rightarrow> string \<Rightarrow> ChunkNode \<Rightarrow> scope \<Rightarrow> panicValue + (Op option \<times> ContextualError option)" where
  "Compile bs bf nm txt n sc =
     (case compileChunk bs bf (startCompile nm txt sc) n of
        Inr (op, cp) \<Rightarrow> Inr (Some op, None)
      | Inl (Exception err) \<Rightarrow> Inr (None, Some err)
      | Inl (RuntimePanic v) \<Rightarrow> Inl v)"

section \<open>Notions of the specification\<close>

text \<open>What the compiler does to one name \<open>x\<close>: the bindings of \<open>x\<close> in the frames of the stack,
  bottom first, and the relation between the state before and after a step that leaves those
  bindings alone and does not drop \<open>x\<close> from the capture set under construction while the
  innermost frame does not bind it.\<close>

definition bindingsOf :: "string \<Rightarrow> compilerEphemeral \<Rightarrow> Type option option list" where
  "bindingsOf x cp = map (\<lambda>f. f x) (scopes cp)"

definition keeps :: "string \<Rightarrow> compilerEphemeral \<Rightarrow> compilerEphemeral \<Rightarrow> bool" where
  "keeps x cp cp' \<longleftrightarrow>
     bindingsOf x cp' = bindingsOf x cp \<and>
     (if scopes cp \<noteq> [] \<and> last (scopes cp) x = None \<and> enclosed cp x \<noteq> None
      then enclosed cp' x \<noteq> None else True)"

text \<open>The special forms are outside \<open>compile.go\<close> and may do anything to the compiler's state.
  A registry is well behaved for \<open>x\<close> when its special forms, where they succeed, treat
  \<open>x\<close> as the compiling functions of \<open>compile.go\<close> themselves do.\<close>

definition wellBehaved :: "(string \<rightharpoonup> builtinSpecial) \<Rightarrow> string \<Rightarrow> bool" where
  "wellBehaved bs x \<longleftrightarrow>
     (\<forall>nm sp cp fn r cp'. bs nm = Some sp \<and> compile sp cp fn = Inr (r, cp') \<longrightarrow> keeps x cp cp')"

text \<open>A node references \<open>x\<close> when a variable primary \<open>$x\<close> stands where the generic compiler
  compiles it: anywhere but among the arguments of a form that a special form may compile.
  With \<open>commands\<close> set, the name of a command \<open>c\<close> and a sigil \<open>c\<close> count as references to
  \<open>fn-c\<close>, which \<open>resolveCommand\<close> looks up.\<close>

definition notSpecial :: "(string \<rightharpoonup> builtinSpecial) \<Rightarrow> PrimaryNode \<Rightarrow> bool" where
  "notSpecial bs command = (case command of StringPrimary p nm \<Rightarrow> bs nm = None | _ \<Rightarrow> True)"

inductive
  refPipeline :: "(string \<rightharpoonup> builtinSpecial) \<Rightarrow> bool \<Rightarrow> string \<Rightarrow> PipelineNode \<Rightarrow> bool" and
  refForm :: "(string \<rightharpoonup> builtinSpecial) \<Rightarrow> bool \<Rightarrow> string \<Rightarrow> FormNode \<Rightarrow> bool" and
  refRedir :: "(string \<rightharpoonup> builtinSpecial) \<Rightarrow> bool \<Rightarrow> string \<Rightarrow> Redir \<Rightarrow> bool" and
  refCompound :: "(string \<rightharpoonup> builtinSpecial) \<Rightarrow> bool \<Rightarrow> string \<Rightarrow> CompoundNode \<Rightarrow> bool" and
  refSubscript :: "(string \<rightharpoonup> builtinSpecial) \<Rightarrow> bool \<Rightarrow> string \<Rightarrow> SubscriptNode \<Rightarrow> bool" and
  refPrimary :: "(string \<rightharpoonup> builtinSpecial) \<Rightarrow> bool \<Rightarrow> string \<Rightarrow> PrimaryNode \<Rightarrow> bool"
  for bs :: "string \<rightharpoonup> builtinSpecial" and commands :: bool and x :: string
where
  refStage: "fm \<in> set fns \<Longrightarrow> refForm bs commands x fm \<Longrightarrow> refPipeline bs commands x (PipelineNode p fns)"
| refCommandName:
    "commands \<Longrightarrow> x = ''fn-'' @ nm \<Longrightarrow>
     refForm bs commands x (FormNode p (CompoundNode cpos sg [SubscriptNode (StringPrimary pp nm) None]) args redirs)"
| refCommand:
    "refPrimary bs commands x command \<Longrightarrow>
     refForm bs commands x (FormNode p (CompoundNode cpos sg [SubscriptNode command None]) args redirs)"
| refRedirection:
    "rd \<in> set redirs \<Longrightarrow> refRedir bs commands x rd \<Longrightarrow> refForm bs commands x (FormNode p cmd args redirs)"
| refArgument:
    "tn \<in> set tns \<Longrightarrow> refCompound bs commands x tn \<Longrightarrow> notSpecial bs command \<Longrightarrow>
     refForm bs commands x (FormNode p (CompoundNode cpos sg [SubscriptNode command None]) (SpacedNode tns) redirs)"
| refFilename: "refCompound bs commands x fname \<Longrightarrow> refRedir bs commands x (FilenameRedir p fd flag fname)"
| refSigil: "commands \<Longrightarrow> x = ''fn-'' @ [c] \<Longrightarrow> refCompound bs commands x (CompoundNode p (SigilChar c) sns)"
| refPart: "sn \<in> set sns \<Longrightarrow> refSubscript bs commands x sn \<Longrightarrow> refCompound bs commands x (CompoundNode p sg sns)"
| refLeft: "refPrimary bs commands x left \<Longrightarrow> refSubscript bs commands x (SubscriptNode left right)"
| refRight: "refCompound bs commands x right \<Longrightarrow> refSubscript bs commands x (SubscriptNode left (Some right))"
| refVariable: "refPrimary bs commands x (VariablePrimary p x)"
| refTableList: "tn \<in> set lst \<Longrightarrow> refCompound bs commands x tn \<Longrightarrow> refPrimary bs commands x (TablePrimary p lst dict)"
| refTableKey:
    "TablePair k v \<in> set dict \<Longrightarrow> refCompound bs commands x k \<Longrightarrow> refPrimary bs commands x (TablePrimary p lst dict)"
| refTableValue:
    "TablePair k v \<in> set dict \<Longrightarrow> refCompound bs commands x v \<Longrightarrow> refPrimary bs commands x (TablePrimary p lst dict)"
| refClosure:
    "pn \<in> set pns \<Longrightarrow> refPipeline bs commands x pn \<Longrightarrow>
     refPrimary bs commands x (ClosurePrimary p (ClosureNode (ChunkNode pns)))"
| refList: "tn \<in> set tns \<Longrightarrow> refCompound bs commands x tn \<Longrightarrow> refPrimary bs commands x (ListPrimary p (SpacedNode tns))"
| refChanCapture: "refPipeline bs commands x pn \<Longrightarrow> refPrimary bs commands x (ChanCapturePrimary p pn)"
| refStatusCapture: "refPipeline bs commands x pn \<Longrightarrow> refPrimary bs commands x (StatusCapturePrimary p pn)"

text \<open>\<open>x\<close> can be captured in a state when a frame binds it to a type and the innermost
  frame does not hold it; it is captured when moreover the capture set holds it; it is
  unbound when no frame binds it to a type.\<close>

definition capturable :: "string \<Rightarrow> compilerEphemeral \<Rightarrow> bool" where
  "capturable x cp \<longleftrightarrow>
     scopes cp \<noteq> [] \<and> last (scopes cp) x = None \<and> (\<exists>f\<in>set (scopes cp). lookupType f x \<noteq> None)"

definition captured :: "string \<Rightarrow> compilerEphemeral \<Rightarrow> bool" where
  "captured x cp \<longleftrightarrow> capturable x cp \<and> enclosed cp x \<noteq> None"

definition unbound :: "string \<Rightarrow> compilerEphemeral \<Rightarrow> bool" where
  "unbound x cp \<longleftrightarrow> list_all (\<lambda>f. lookupType f x = None) (scopes cp)"

text \<open>A result carries the context of a state when an exception in it holds the name and
  text of the state and a state in it has them unchanged; a registry reports the context
  when every result of its special forms carries the context of the state they were given.\<close>

definition carries :: "compilerEphemeral \<Rightarrow> failure + ('a \<times> compilerEphemeral) \<Rightarrow> bool" where
  "carries cp res =
     (case res of
        Inl (Exception e) \<Rightarrow> errName e = name cp \<and> errText e = text' cp
      | Inl (RuntimePanic v) \<Rightarrow> True
      | Inr (r, cp') \<Rightarrow> name cp' = name cp \<and> text' cp' = text' cp)"

definition reportsContext :: "(string \<rightharpoonup> builtinSpecial) \<Rightarrow> bool" where
  "reportsContext bs = (\<forall>nm sp cp fm. bs nm = Some sp \<longrightarrow> carries cp (compile sp cp fm))"

section \<open>Example inputs\<close>

text \<open>Concrete states, registries and syntax trees at which the theorems below are
  evaluated. \<open>sp0\<close> is a special form that compiles nothing.\<close>

definition cp_user :: compilerEphemeral where
  "cp_user = \<lparr>name = ''n'', text' = ''t'',
     scopes = [[''fn-put'' \<mapsto> Some ClosureType]], enclosed = Map.empty\<rparr>"

definition cp_plain :: compilerEphemeral where
  "cp_plain = \<lparr>name = ''n'', text' = ''t'',
     scopes = [[''fn-put'' \<mapsto> Some StringType]], enclosed = Map.empty\<rparr>"

definition sp0 :: builtinSpecial where "sp0 = \<lparr>compile = (\<lambda>cp fn. Inr (StrOp 0, cp))\<rparr>"

definition cp_shadow :: compilerEphemeral where
  "cp_shadow = \<lparr>name = ''n'', text' = ''t'',
     scopes = [[''fn-f'' \<mapsto> Some StringType], [''fn-f'' \<mapsto> Some StringType]],
     enclosed = Map.empty\<rparr>"

definition cp_below :: compilerEphemeral where
  "cp_below = \<lparr>name = ''n'', text' = ''t'',
     scopes = [[''fn-f'' \<mapsto> Some StringType], Map.empty], enclosed = Map.empty\<rparr>"

definition bad_chunk :: ChunkNode where
  "bad_chunk = ChunkNode [PipelineNode 0
     [FormNode 0 (CompoundNode 0 NoSigil [SubscriptNode (StringPrimary 0 ''echo'') None])
        (SpacedNode [CompoundNode 5 NoSigil [SubscriptNode (BadPrimary 5 99) None]]) []]]"

definition cp_root :: compilerEphemeral where
  "cp_root = \<lparr>name = ''n'', text' = ''t'', scopes = [Map.empty], enclosed = Map.empty\<rparr>"

definition undefined_filename :: Redir where
  "undefined_filename =
     FilenameRedir 7 1 0 (CompoundNode 9 NoSigil [SubscriptNode (VariablePrimary 9 ''y'') None])"

definition form_fd2 :: FormNode where
  "form_fd2 = FormNode 0 (CompoundNode 0 NoSigil [SubscriptNode (StringPrimary 0 ''ls'') None])
                (SpacedNode []) [CloseRedir 2]"

definition at_foo :: CompoundNode where
  "at_foo = CompoundNode 0 (SigilChar CHR ''@'') [SubscriptNode (StringPrimary 1 ''foo'') None]"

definition form_of :: "Pos \<Rightarrow> PrimaryNode \<Rightarrow> CompoundNode list \<Rightarrow> FormNode" where
  "form_of p command args =
     FormNode p (CompoundNode p NoSigil [SubscriptNode command None]) (SpacedNode args) []"

definition empty_closure :: PrimaryNode where
  "empty_closure = ClosurePrimary 5 (ClosureNode (ChunkNode []))"

definition call_then_closure :: ChunkNode where
  "call_then_closure = ChunkNode [PipelineNode 0 [form_of 0
     (ClosurePrimary 0 (ClosureNode (ChunkNode
        [PipelineNode 2 [form_of 2 (StringPrimary 2 ''f'') []],
         PipelineNode 5 [form_of 5 empty_closure []]]))) []]]"

definition closureRes :: commandResolution where
  "closureRes = emptyResolution\<lparr>commandType := commandClosure\<rparr>"

definition nop_registry :: "string \<rightharpoonup> builtinSpecial" where
  "nop_registry = [''nop'' \<mapsto> sp0]"

definition put_x :: PipelineNode where
  "put_x = PipelineNode 4 [form_of 4 (StringPrimary 4 ''put'')
             [CompoundNode 8 NoSigil [SubscriptNode (VariablePrimary 8 ''x'') None]]]"

definition put_x_op :: valuesOp where
  "put_x_op = CombinePipeline [CombineForm (MakeString ''put'')
       (Some (CombineSpaced [CombineCompound [MakeVar ''x'' 8]])) []
       (emptyResolution\<lparr>commandType := commandExternal\<rparr>) 4] 4"

definition inner_closure :: PrimaryNode where
  "inner_closure = ClosurePrimary 2 (ClosureNode (ChunkNode [put_x]))"

definition nested_closure :: PrimaryNode where
  "nested_closure = ClosurePrimary 0 (ClosureNode (ChunkNode [PipelineNode 2 [form_of 2 inner_closure []]]))"

definition cp_x :: compilerEphemeral where
  "cp_x = \<lparr>name = ''n'', text' = ''{ { put $x } }'',
            scopes = [[''x'' \<mapsto> Some StringType]], enclosed = Map.empty\<rparr>"

definition cp_x_rebound :: compilerEphemeral where
  "cp_x_rebound = \<lparr>name = ''n'', text' = ''t'',
            scopes = [[''x'' \<mapsto> Some StringType], [''x'' \<mapsto> Some ClosureType]],
            enclosed = Map.empty\<rparr>"

text \<open>Modelled from the spec: a special form is given the raw form node and the compiler and
  returns its own sub-op. \<open>var_special\<close> is a special form that declares a variable: it binds
  the name given as its first argument in the innermost frame with \<open>pushVar\<close>.\<close>

definition var_special :: builtinSpecial where
  "var_special = \<lparr>compile = (\<lambda>cp fm.
     case fm of
       FormNode p cmd (SpacedNode (CompoundNode q sg [SubscriptNode (StringPrimary q' nm) None] # rest))
         redirs \<Rightarrow>
           (case pushVar cp nm (Some StringType) of
              Inl e \<Rightarrow> Inl e
            | Inr cp' \<Rightarrow> Inr (StrOp 0, cp'))
     | _ \<Rightarrow> Inl (errorf cp 0 ''var: a name is expected''))\<rparr>"

definition var_x :: PipelineNode where
  "var_x = PipelineNode 12 [form_of 12 (StringPrimary 12 ''var'')
             [CompoundNode 16 NoSigil [SubscriptNode (StringPrimary 16 ''x'') None]]]"

definition var_x_op :: valuesOp where
  "var_x_op = CombinePipeline [CombineForm (MakeString ''var'') None []
       (emptyResolution\<lparr>commandType := commandBuiltinSpecial,
          builtinSpecial := Some var_special, specialOp := Some (StrOp 0)\<rparr>) 12] 12"

definition reference_bind_closure :: ChunkNode where
  "reference_bind_closure = ChunkNode [PipelineNode 0 [form_of 0
     (ClosurePrimary 0 (ClosureNode (ChunkNode
        [put_x, var_x, PipelineNode 19 [form_of 19 (ClosurePrimary 19 (ClosureNode (ChunkNode []))) []]])))
     []]]"

definition echo_y :: ChunkNode where
  "echo_y = ChunkNode [PipelineNode 0 [form_of 0
     (ClosurePrimary 0 (ClosureNode (ChunkNode
        [PipelineNode 1 [form_of 1 (StringPrimary 1 ''echo'')
           [CompoundNode 6 NoSigil [SubscriptNode (VariablePrimary 6 ''y'') None]]]]))) []]]"

section \<open>Resolution of variables\<close>

lemma ResolveVar_loop_fields:
  "name (snd (ResolveVar_loop cp nm ts k)) = name cp \<and>
   text' (snd (ResolveVar_loop cp nm ts k)) = text' cp \<and>
   scopes (snd (ResolveVar_loop cp nm ts k)) = scopes cp"
  by (induction k) (auto split: option.splits)

lemma ResolveVar_fields [simp]:
  "name (snd (ResolveVar cp nm)) = name cp"
  "text' (snd (ResolveVar cp nm)) = text' cp"
  "scopes (snd (ResolveVar cp nm)) = scopes cp"
  by (simp_all add: ResolveVar_def ResolveVar_loop_fields)

lemma ResolveVar_loop_None:
  "fst (ResolveVar_loop cp nm ts k) = None \<longleftrightarrow> (\<forall>i<k. lookupType (scopes cp ! i) nm = None)"
  by (induction k) (auto split: option.splits simp: less_Suc_eq)

lemma ResolveVar_loop_None_state:
  "fst (ResolveVar_loop cp nm ts k) = None \<Longrightarrow> snd (ResolveVar_loop cp nm ts k) = cp"
  by (induction k) (auto split: option.splits)

lemma ResolveVar_loop_enclosed_other:
  "nm' \<noteq> nm \<Longrightarrow> enclosed (snd (ResolveVar_loop cp nm ts k)) nm' = enclosed cp nm'"
  by (induction k) (auto split: option.splits)

lemma ResolveVar_loop_found:
  "i < k \<Longrightarrow> lookupType (scopes cp ! i) nm = Some t \<Longrightarrow>
   \<forall>j. i < j \<and> j < k \<longrightarrow> lookupType (scopes cp ! j) nm = None \<Longrightarrow>
   ResolveVar_loop cp nm ts k =
     (Some t, if int i < ts then cp\<lparr>enclosed := (enclosed cp)(nm \<mapsto> Some t)\<rparr> else cp)"
proof (induction k)
  case 0
  then show ?case by simp
next
  case (Suc k)
  show ?case
  proof (cases "i = k")
    case True
    with Suc.prems show ?thesis by simp
  next
    case False
    with Suc.prems have "i < k" by simp
    moreover from Suc.prems False have "lookupType (scopes cp ! k) nm = None" by simp
    ultimately show ?thesis using Suc by simp
  qed
qed

lemma ResolveVar_below:
  assumes "scopes cp = below @ [inner]"
    and "lookupType inner nm = None"
    and "i < length below"
    and "lookupType (below ! i) nm = Some t"
    and "\<forall>j. i < j \<and> j < length below \<longrightarrow> lookupType (below ! j) nm = None"
  shows "ResolveVar cp nm = (Some t, cp\<lparr>enclosed := (enclosed cp)(nm \<mapsto> Some t)\<rparr>)"
proof -
  have len: "length (scopes cp) = Suc (length below)" using assms(1) by simp
  have at_i: "lookupType (scopes cp ! i) nm = Some t"
    using assms(1,3,4) by (simp add: nth_append)
  have above: "\<forall>j. i < j \<and> j < length (scopes cp) \<longrightarrow> lookupType (scopes cp ! j) nm = None"
    using assms(1,2,5) by (auto simp: nth_append less_Suc_eq)
  have "i < length (scopes cp)" using len assms(3) by simp
  from ResolveVar_loop_found [OF this at_i above, of "int (length (scopes cp)) - 1"]
  show ?thesis using len assms(3) by (simp add: ResolveVar_def)
qed

lemma ResolveVar_unbound:
  assumes "\<forall>f\<in>set (scopes cp). f nm = None"
  shows "ResolveVar cp nm = (None, cp)"
proof -
  have "lookupType (scopes cp ! i) nm = None" if "i < length (scopes cp)" for i
  proof -
    from that have "scopes cp ! i \<in> set (scopes cp)" by simp
    with assms have "(scopes cp ! i) nm = None" by blast
    then show ?thesis by (simp add: lookupType_def)
  qed
  then have "fst (ResolveVar cp nm) = None"
    by (simp add: ResolveVar_def ResolveVar_loop_None)
  moreover from this have "snd (ResolveVar cp nm) = cp"
    by (simp add: ResolveVar_def ResolveVar_loop_None_state)
  ultimately show ?thesis by (simp add: prod_eq_iff)
qed

section \<open>Command resolution\<close>

text \<open>C2. Command resolution assigns one kind in strict priority order: a defined function
  when \<open>fn-<name>\<close> resolves to the closure type; otherwise a builtin special form with its
  handle; otherwise a builtin function with its handle; otherwise an external command. A
  name bound as \<open>fn-<name>\<close> to a closure is a defined function whatever the registries hold,
  and a name registered as special form and as function is a special form.\<close>

theorem resolveCommand_priority:
  "(fst (ResolveVar cp (''fn-'' @ nm)) = Some ClosureType \<longrightarrow>
      fst (resolveCommand bs bf cp nm emptyResolution) =
        emptyResolution\<lparr>commandType := commandDefinedFunction\<rparr>) \<and>
   (fst (ResolveVar cp (''fn-'' @ nm)) \<noteq> Some ClosureType \<and> bs nm = Some sp \<longrightarrow>
      fst (resolveCommand bs bf cp nm emptyResolution) =
        emptyResolution\<lparr>commandType := commandBuiltinSpecial, builtinSpecial := Some sp\<rparr>) \<and>
   (fst (ResolveVar cp (''fn-'' @ nm)) \<noteq> Some ClosureType \<and> bs nm = None \<and> bf nm = Some fu \<longrightarrow>
      fst (resolveCommand bs bf cp nm emptyResolution) =
        emptyResolution\<lparr>commandType := commandBuiltinFunction, builtinFunc := Some fu\<rparr>) \<and>
   (fst (ResolveVar cp (''fn-'' @ nm)) \<noteq> Some ClosureType \<and> bs nm = None \<and> bf nm = None \<longrightarrow>
      fst (resolveCommand bs bf cp nm emptyResolution) =
        emptyResolution\<lparr>commandType := commandExternal\<rparr>)"
  by (simp add: resolveCommand_def split: prod.splits)

theorem resolveCommand_priority_witness:
  "fst (resolveCommand [''put'' \<mapsto> sp0] [''put'' \<mapsto> BuiltinFunc 1] cp_user ''put'' emptyResolution) =
     emptyResolution\<lparr>commandType := commandDefinedFunction\<rparr> \<and>
   fst (resolveCommand [''put'' \<mapsto> sp0] [''put'' \<mapsto> BuiltinFunc 1] cp_plain ''put'' emptyResolution) =
     emptyResolution\<lparr>commandType := commandBuiltinSpecial, builtinSpecial := Some sp0\<rparr> \<and>
   fst (resolveCommand Map.empty [''put'' \<mapsto> BuiltinFunc 1] cp_plain ''put'' emptyResolution) =
     emptyResolution\<lparr>commandType := commandBuiltinFunction, builtinFunc := Some (BuiltinFunc 1)\<rparr> \<and>
   fst (resolveCommand Map.empty Map.empty cp_plain ''put'' emptyResolution) =
     emptyResolution\<lparr>commandType := commandExternal\<rparr>"
proof -
  have u: "fst (ResolveVar cp_user (''fn-'' @ ''put'')) = Some ClosureType"
    by (simp add: ResolveVar_def cp_user_def lookupType_def)
  have p: "fst (ResolveVar cp_plain (''fn-'' @ ''put'')) \<noteq> Some ClosureType"
    by (simp add: ResolveVar_def cp_plain_def lookupType_def)
  show ?thesis
    using u p
      resolveCommand_priority [where cp = cp_user and nm = "''put''" and bs = "[''put'' \<mapsto> sp0]" and sp = sp0 and bf = "[''put'' \<mapsto> BuiltinFunc 1]" and fu = "BuiltinFunc 1"]
      resolveCommand_priority [where cp = cp_plain and nm = "''put''" and bs = "[''put'' \<mapsto> sp0]" and sp = sp0 and bf = "[''put'' \<mapsto> BuiltinFunc 1]" and fu = "BuiltinFunc 1"]
      resolveCommand_priority [where cp = cp_plain and nm = "''put''" and bs = "Map.empty" and sp = sp0 and bf = "[''put'' \<mapsto> BuiltinFunc 1]" and fu = "BuiltinFunc 1"]
      resolveCommand_priority [where cp = cp_plain and nm = "''put''" and bs = "Map.empty" and sp = sp0 and bf = "Map.empty" and fu = "BuiltinFunc 1"]
    by simp
qed

text \<open>C10, as stated: resolving a command records \<open>fn-<name>\<close> whenever a binding exists in a
  frame strictly below the innermost one. It fails when the innermost frame binds the name
  too: the lookup stops there and records nothing.\<close>

theorem resolveCommand_shadowed_counterexample:
  "lookupType (scopes cp_shadow ! 0) ''fn-f'' = Some StringType \<and>
   enclosed (snd (resolveCommand Map.empty Map.empty cp_shadow ''f'' emptyResolution)) ''fn-f'' = None"
  by (simp add: cp_shadow_def resolveCommand_def ResolveVar_def lookupType_def)

text \<open>C10, amended: when the innermost frame holds no binding of \<open>fn-<name>\<close> and a frame
  strictly below it does, resolving the command records \<open>fn-<name>\<close> with the type of the
  nearest such binding in the capture set, also when that type is not the closure type and
  the command therefore is not a defined function.\<close>

theorem resolveCommand_records_capture:
  assumes "scopes cp = below @ [inner]"
    and "lookupType inner (''fn-'' @ nm) = None"
    and "i < length below"
    and "lookupType (below ! i) (''fn-'' @ nm) = Some t"
    and "\<forall>j. i < j \<and> j < length below \<longrightarrow> lookupType (below ! j) (''fn-'' @ nm) = None"
  shows "enclosed (snd (resolveCommand bs bf cp nm cr)) (''fn-'' @ nm) = Some (Some t) \<and>
         (t \<noteq> ClosureType \<longrightarrow>
            commandType (fst (resolveCommand bs bf cp nm cr)) \<noteq> commandDefinedFunction)"
  using ResolveVar_below [OF assms]
  by (simp add: resolveCommand_def split: option.splits)

theorem resolveCommand_records_capture_witness:
  "enclosed (snd (resolveCommand Map.empty Map.empty cp_below ''f'' emptyResolution)) ''fn-f''
     = Some (Some StringType) \<and>
   commandType (fst (resolveCommand Map.empty Map.empty cp_below ''f'' emptyResolution))
     = commandExternal"
proof -
  have a: "scopes cp_below = [[''fn-f'' \<mapsto> Some StringType]] @ [Map.empty]"
    by (simp add: cp_below_def)
  have b: "lookupType Map.empty (''fn-'' @ ''f'') = None" by (simp add: lookupType_def)
  have c: "(0::nat) < length [[''fn-f'' \<mapsto> Some StringType]]" by simp
  have d: "lookupType ([[''fn-f'' \<mapsto> Some StringType]] ! 0) (''fn-'' @ ''f'') = Some StringType"
    by (simp add: lookupType_def)
  have e: "\<forall>j. 0 < j \<and> j < length [[''fn-f'' \<mapsto> Some StringType]] \<longrightarrow>
             lookupType ([[''fn-f'' \<mapsto> Some StringType]] ! j) (''fn-'' @ ''f'') = None"
    by simp
  from resolveCommand_records_capture [OF a b c d e, of Map.empty Map.empty emptyResolution]
  show ?thesis
    by (simp add: resolveCommand_def ResolveVar_def cp_below_def lookupType_def emptyResolution_def)
qed

section \<open>Compound words\<close>

text \<open>C8. A compound word with a sigil compiles to a channel capture around a pipeline of one
  form, which invokes the command named by the sigil character, resolved by
  \<open>resolveCommand\<close>, with the concatenation of the word's parts as its argument list; a word
  without sigil compiles to the concatenation itself.\<close>

theorem compileCompound_sigil:
  assumes "compileCompound bs bf cp (CompoundNode p sigil sns) = Inr (op, cp')"
  shows "\<exists>ops cp1. compileSubscripts bs bf cp sns = Inr (ops, cp1) \<and>
           (case sigil of
              NoSigil \<Rightarrow> op = CombineCompound ops \<and> cp' = cp1
            | SigilChar c \<Rightarrow>
                op = CombineChanCapture (CombinePipeline
                       [CombineForm (MakeString [c]) (Some (CombineCompound ops)) []
                          (fst (resolveCommand bs bf cp1 [c] emptyResolution)) p] p) \<and>
                cp' = snd (resolveCommand bs bf cp1 [c] emptyResolution))"
  using assms by (auto split: sum.splits Sigil.splits prod.splits)

theorem compileCompound_sigil_witness:
  "compileCompound Map.empty Map.empty cp_root at_foo =
     Inr (CombineChanCapture (CombinePipeline
            [CombineForm (MakeString ''@'') (Some (CombineCompound [MakeString ''foo''])) []
               (emptyResolution\<lparr>commandType := commandExternal\<rparr>) 0] 0), cp_root)"
proof -
  have a: "compileCompound Map.empty Map.empty cp_root
             (CompoundNode 0 (SigilChar CHR ''@'') [SubscriptNode (StringPrimary 1 ''foo'') None]) =
           Inr (CombineChanCapture (CombinePipeline
            [CombineForm (MakeString ''@'') (Some (CombineCompound [MakeString ''foo''])) []
               (emptyResolution\<lparr>commandType := commandExternal\<rparr>) 0] 0), cp_root)"
    by (simp add: cp_root_def resolveCommand_def ResolveVar_def lookupType_def)
  from compileCompound_sigil [OF a] a show ?thesis by (simp add: at_foo_def)
qed

section \<open>The port table\<close>

lemma nports_ge: "n \<le> nports n rds"
proof (induction rds arbitrary: n)
  case Nil
  then show ?case by simp
next
  case (Cons rd rds)
  have "n \<le> (if n < Fd rd + 1 then Fd rd + 1 else n)" by (simp add: order.strict_implies_order)
  also have "\<dots> \<le> nports (if n < Fd rd + 1 then Fd rd + 1 else n) rds" by (rule Cons.IH)
  finally show ?case by simp
qed

lemma nports_cases: "nports n rds = n \<or> (\<exists>rd\<in>set rds. nports n rds = Fd rd + 1)"
proof (induction rds arbitrary: n)
  case Nil
  then show ?case by simp
next
  case (Cons rd rds)
  from Cons.IH [of "if n < Fd rd + 1 then Fd rd + 1 else n"]
  show ?case by (auto split: if_splits)
qed

lemma compileRedirs_table:
  assumes "compileRedirs bs bf cp ports0 rds = Inr (ports, cp')"
  shows "length ports = length ports0 \<and>
         (\<forall>rd\<in>set rds. unat (Fd rd) < length ports0) \<and>
         (\<forall>i<length ports0. i \<notin> unat ` Fd ` set rds \<longrightarrow> ports ! i = ports0 ! i) \<and>
         (\<forall>i\<in>unat ` Fd ` set rds. ports ! i \<noteq> None)"
  using assms
proof (induction rds arbitrary: cp ports0)
  case Nil
  then show ?case by simp
next
  case (Cons rd rds)
  from Cons.prems obtain pop cp1 where
    rd: "compileRedir bs bf cp rd = Inr (pop, cp1)" and
    inb: "unat (Fd rd) < length ports0" and
    rest: "compileRedirs bs bf cp1 (ports0[unat (Fd rd) := Some pop]) rds = Inr (ports, cp')"
    by (auto split: sum.splits if_splits)
  note ih = Cons.IH [OF rest]
  have len: "length ports = length ports0" using ih by simp
  have bound: "\<forall>r\<in>set (rd # rds). unat (Fd r) < length ports0" using ih inb by simp
  have keep: "ports ! i = ports0 ! i"
    if "i < length ports0" "i \<notin> unat ` Fd ` set (rd # rds)" for i
  proof -
    from that have "i \<notin> unat ` Fd ` set rds" "i \<noteq> unat (Fd rd)" by auto
    with ih that(1) show ?thesis by simp
  qed
  have named: "ports ! i \<noteq> None" if "i \<in> unat ` Fd ` set (rd # rds)" for i
  proof (cases "i \<in> unat ` Fd ` set rds")
    case True
    with ih show ?thesis by blast
  next
    case False
    with that have i: "i = unat (Fd rd)" by auto
    with ih False inb have "ports ! i = (ports0[unat (Fd rd) := Some pop]) ! i" by simp
    with i inb show ?thesis by simp
  qed
  from len bound keep named show ?case by blast
qed

lemma nports_length:
  assumes "rds \<noteq> []" and "\<forall>rd\<in>set rds. unat (Fd rd) < unat (nports 0 rds)"
  shows "unat (nports 0 rds) = Max (unat ` Fd ` set rds) + 1"
proof -
  from assms obtain r where "r \<in> set rds" by (cases rds) auto
  with assms(2) have pos: "nports 0 rds \<noteq> 0" by (auto simp: unat_gt_0 [symmetric])
  with nports_cases [of 0 rds] obtain rd0 where
    rd0: "rd0 \<in> set rds" and eq: "nports 0 rds = Fd rd0 + 1" by auto
  from pos eq have "Fd rd0 + 1 \<noteq> 0" by simp
  then have u: "unat (Fd rd0 + 1) = unat (Fd rd0) + 1"
    using unatSuc [of "Fd rd0"] by (simp add: add.commute)
  have "Max (unat ` Fd ` set rds) = unat (Fd rd0)"
  proof (rule Max_eqI)
    show "finite (unat ` Fd ` set rds)" by simp
    show "y \<le> unat (Fd rd0)" if "y \<in> unat ` Fd ` set rds" for y
      using that assms(2) eq u by auto
    show "unat (Fd rd0) \<in> unat ` Fd ` set rds" using rd0 by blast
  qed
  with eq u show ?thesis by simp
qed

lemma compileRedirs_append:
  "compileRedirs bs bf cp table (pre @ post) =
     (case compileRedirs bs bf cp table pre of
        Inl e \<Rightarrow> Inl e
      | Inr (ports1, cp1) \<Rightarrow> compileRedirs bs bf cp1 ports1 post)"
  by (induction pre arbitrary: cp table) (auto split: sum.splits)

text \<open>C6. The port table of a compiled form has the length of the largest redirected file
  descriptor plus one, and length zero without redirections; a slot below that length that
  no redirection names holds the nil port op, and a slot that one names holds a port op.\<close>

theorem port_table_sizing:
  assumes "compileForm bs bf cp (FormNode p cmd args redirs) =
             Inr (CombineForm cmdOp tlist ports res p', cp')"
  shows "length ports = (if redirs = [] then 0 else Max (unat ` Fd ` set redirs) + 1) \<and>
         (\<forall>i<length ports. (i \<in> unat ` Fd ` set redirs \<longrightarrow> ports ! i \<noteq> None) \<and>
                            (i \<notin> unat ` Fd ` set redirs \<longrightarrow> ports ! i = None))"
proof -
  obtain cpos sg nodes where cmd: "cmd = CompoundNode cpos sg nodes" by (cases cmd) auto
  from assms obtain cp2 cp3 where
    r: "compileRedirs bs bf cp2 (replicate (unat (nports 0 redirs)) None) redirs = Inr (ports, cp3)"
    unfolding cmd
    by (auto split: sum.splits list.splits SubscriptNode.splits option.splits if_splits)
  note t = compileRedirs_table [OF r]
  have len: "length ports = unat (nports 0 redirs)" using t by simp
  have "length ports = (if redirs = [] then 0 else Max (unat ` Fd ` set redirs) + 1)"
  proof (cases "redirs = []")
    case True
    with len show ?thesis by simp
  next
    case False
    from t have "\<forall>rd\<in>set redirs. unat (Fd rd) < unat (nports 0 redirs)" by simp
    from nports_length [OF False this] len False show ?thesis by simp
  qed
  moreover have "\<forall>i<length ports. (i \<in> unat ` Fd ` set redirs \<longrightarrow> ports ! i \<noteq> None) \<and>
                            (i \<notin> unat ` Fd ` set redirs \<longrightarrow> ports ! i = None)"
    using t len by auto
  ultimately show ?thesis by blast
qed

lemma form_fd2_compiles:
  "compileForm Map.empty Map.empty cp_root form_fd2 =
     Inr (CombineForm (MakeString ''ls'') (Some (CombineSpaced [])) [None, None, Some ClosePort]
            (emptyResolution\<lparr>commandType := commandExternal\<rparr>) 0, cp_root)"
  by (simp add: form_fd2_def cp_root_def compileForm_switch_def resolveCommand_def ResolveVar_def
      lookupType_def)
     (simp add: numeral_3_eq_3 numeral_2_eq_2)

theorem port_table_sizing_witness:
  "compileForm Map.empty Map.empty cp_root form_fd2 =
     Inr (CombineForm (MakeString ''ls'') (Some (CombineSpaced [])) [None, None, Some ClosePort]
            (emptyResolution\<lparr>commandType := commandExternal\<rparr>) 0, cp_root) \<and>
   length [None, None, Some ClosePort] = 3 \<and>
   [None, None, Some ClosePort] ! 0 = None \<and> [None, None, Some ClosePort] ! 1 = None"
  using form_fd2_compiles
    port_table_sizing [where bs = "Map.empty" and bf = "Map.empty" and cp = cp_root and p = 0
      and cmd = "CompoundNode 0 NoSigil [SubscriptNode (StringPrimary 0 ''ls'') None]"
      and args = "SpacedNode []" and redirs = "[CloseRedir 2]" and cmdOp = "MakeString ''ls''"
      and tlist = "Some (CombineSpaced [])" and ports = "[None, None, Some ClosePort]"
      and res = "emptyResolution\<lparr>commandType := commandExternal\<rparr>" and p' = 0
      and cp' = cp_root]
  by (simp add: form_fd2_def)

text \<open>C9. Every redirection of a form is compiled in source order, each from the state its
  predecessors left; the slot of a file descriptor holds the port op of the last redirection
  that names it, and a redirection that a later one overrides still raises its failure.\<close>

theorem last_redirection_wins:
  "(compileRedirs bs bf cp table (pre @ rd # post) = Inr (ports, cp') \<and>
    (\<forall>r\<in>set post. Fd r \<noteq> Fd rd) \<longrightarrow>
      (\<exists>ports1 cp1 pop cp2.
         compileRedirs bs bf cp table pre = Inr (ports1, cp1) \<and>
         compileRedir bs bf cp1 rd = Inr (pop, cp2) \<and>
         compileRedirs bs bf cp2 (ports1[unat (Fd rd) := Some pop]) post = Inr (ports, cp') \<and>
         ports ! unat (Fd rd) = Some pop)) \<and>
   (compileRedirs bs bf cp table pre = Inr (tableA, cpA) \<and>
    compileRedir bs bf cpA rd = Inl e \<longrightarrow>
      compileRedirs bs bf cp table (pre @ rd # post) = Inl e)"
proof (intro conjI impI)
  assume a: "compileRedirs bs bf cp table (pre @ rd # post) = Inr (ports, cp') \<and>
             (\<forall>r\<in>set post. Fd r \<noteq> Fd rd)"
  then obtain ports1 cp1 where
    r1: "compileRedirs bs bf cp table pre = Inr (ports1, cp1)" and
    r2: "compileRedirs bs bf cp1 ports1 (rd # post) = Inr (ports, cp')"
    by (auto simp: compileRedirs_append split: sum.splits)
  from r2 obtain pop cp2 where
    c: "compileRedir bs bf cp1 rd = Inr (pop, cp2)" and
    inb: "unat (Fd rd) < length ports1" and
    r3: "compileRedirs bs bf cp2 (ports1[unat (Fd rd) := Some pop]) post = Inr (ports, cp')"
    by (auto split: sum.splits if_splits)
  from a have "unat (Fd rd) \<notin> unat ` Fd ` set post" by (auto simp: word_unat_eq_iff)
  with compileRedirs_table [OF r3] inb
  have "ports ! unat (Fd rd) = (ports1[unat (Fd rd) := Some pop]) ! unat (Fd rd)" by simp
  with inb have "ports ! unat (Fd rd) = Some pop" by simp
  with r1 c r3 show "\<exists>ports1 cp1 pop cp2.
         compileRedirs bs bf cp table pre = Inr (ports1, cp1) \<and>
         compileRedir bs bf cp1 rd = Inr (pop, cp2) \<and>
         compileRedirs bs bf cp2 (ports1[unat (Fd rd) := Some pop]) post = Inr (ports, cp') \<and>
         ports ! unat (Fd rd) = Some pop" by blast
next
  assume "compileRedirs bs bf cp table pre = Inr (tableA, cpA) \<and>
          compileRedir bs bf cpA rd = Inl e"
  then show "compileRedirs bs bf cp table (pre @ rd # post) = Inl e"
    by (simp add: compileRedirs_append)
qed

theorem last_redirection_wins_witness:
  "compileRedirs Map.empty Map.empty cp_root [None, None] ([FdRedir 1 2] @ CloseRedir 1 # [CloseRedir 0])
     = Inr ([Some ClosePort, Some ClosePort], cp_root) \<and>
   compileRedirs Map.empty Map.empty cp_root [None, None] ([] @ undefined_filename # [CloseRedir 1])
     = Inl (Exception \<lparr>errName = ''n'', errText = ''t'', errPos = 9,
                        errMsg = ''undefined variable $y''\<rparr>)"
proof -
  have a: "compileRedirs Map.empty Map.empty cp_root [None, None]
             ([FdRedir 1 2] @ CloseRedir 1 # [CloseRedir 0])
           = Inr ([Some ClosePort, Some ClosePort], cp_root) \<and>
           (\<forall>r\<in>set [CloseRedir 0]. Fd r \<noteq> Fd (CloseRedir 1))"
    by simp
  have b: "compileRedirs Map.empty Map.empty cp_root [None, None] [] = Inr ([None, None], cp_root) \<and>
           compileRedir Map.empty Map.empty cp_root undefined_filename =
             Inl (Exception \<lparr>errName = ''n'', errText = ''t'', errPos = 9,
                              errMsg = ''undefined variable $y''\<rparr>)"
    by (simp add: undefined_filename_def cp_root_def makeVar_def mustResolveVar_def
        ResolveVar_def lookupType_def errorf_def)
  from a b
    last_redirection_wins [where bs = "Map.empty" and bf = "Map.empty" and cp = cp_root
      and table = "[None, None]" and pre = "[]" and rd = undefined_filename
      and post = "[CloseRedir 1]" and tableA = "[None, None]" and cpA = cp_root
      and e = "Exception \<lparr>errName = ''n'', errText = ''t'', errPos = 9,
                              errMsg = ''undefined variable $y''\<rparr>"]
  show ?thesis by simp
qed

section \<open>What compiling a node does to one name\<close>

lemma keeps_refl [simp]: "keeps x cp cp"
  by (simp add: keeps_def)

lemma bindingsOf_last:
  "bindingsOf x cp' = bindingsOf x cp \<Longrightarrow> scopes cp \<noteq> [] \<Longrightarrow>
   scopes cp' \<noteq> [] \<and> last (scopes cp') x = last (scopes cp) x"
proof -
  assume a: "bindingsOf x cp' = bindingsOf x cp" and b: "scopes cp \<noteq> []"
  from a have "length (scopes cp') = length (scopes cp)"
    unfolding bindingsOf_def by (rule map_eq_imp_length_eq)
  with b have c: "scopes cp' \<noteq> []" by auto
  from a have "last (map (\<lambda>f. f x) (scopes cp')) = last (map (\<lambda>f. f x) (scopes cp))"
    by (simp add: bindingsOf_def)
  with b c show ?thesis by (simp add: last_map)
qed

lemma bindingsOf_empty:
  "bindingsOf x cp' = bindingsOf x cp \<Longrightarrow> scopes cp' = [] \<longleftrightarrow> scopes cp = []"
  by (metis bindingsOf_def map_is_Nil_conv)

lemma keeps_trans: "keeps x a b \<Longrightarrow> keeps x b c \<Longrightarrow> keeps x a c"
  unfolding keeps_def using bindingsOf_last [of x b a] by (auto split: if_splits)

lemma keeps_ResolveVar_loop: "keeps x cp (snd (ResolveVar_loop cp nm ts k))"
  by (induction k) (auto simp: keeps_def bindingsOf_def split: option.splits)

lemma keeps_ResolveVar [simp]: "keeps x cp (snd (ResolveVar cp nm))"
  by (simp add: ResolveVar_def keeps_ResolveVar_loop)

lemma keeps_ResolveVarI: "ResolveVar cp nm = (t, cp') \<Longrightarrow> keeps x cp cp'"
  using keeps_ResolveVar [of x cp nm] by simp

lemma keeps_resolveCommand [simp]: "keeps x cp (snd (resolveCommand bs bf cp nm cr))"
  by (auto simp: resolveCommand_def split: prod.splits intro: keeps_ResolveVarI)

lemma keeps_resolveCommandI:
  "resolveCommand bs bf cp nm cr = (r, cp') \<Longrightarrow> keeps x cp cp'"
  using keeps_resolveCommand [of x cp bs bf nm cr] by simp

lemma keeps_makeVar: "makeVar cp nm p = Inr (r, cp') \<Longrightarrow> keeps x cp cp'"
  by (auto simp: makeVar_def mustResolveVar_def split: sum.splits prod.splits option.splits
      intro: keeps_ResolveVarI)

lemma keeps_switch:
  "compileForm_switch bs bf cp cpos command = Inr (r, cp') \<Longrightarrow> keeps x cp cp'"
  using keeps_resolveCommand [of x cp bs bf _ emptyResolution]
  by (cases command) (auto simp: compileForm_switch_def prod_eq_iff)

lemma switch_special:
  "compileForm_switch bs bf cp cpos command = Inr (res, cp') \<Longrightarrow>
   commandType res = commandBuiltinSpecial \<Longrightarrow> builtinSpecial res = Some sp \<Longrightarrow>
   \<exists>p nm. command = StringPrimary p nm \<and> bs nm = Some sp"
  by (cases command)
     (auto simp: compileForm_switch_def resolveCommand_def emptyResolution_def
           split: prod.splits if_splits option.splits)

lemma keeps_closure:
  assumes body: "keeps x (pushScope cp) cp1"
    and pop: "popScope (cp1\<lparr>enclosed := Map.empty\<rparr>) = Inr cp2"
  shows "bindingsOf x cp2 = bindingsOf x cp \<and> enclosed cp2 = Map.empty \<and>
         (enclosed cp x \<noteq> None \<longrightarrow> enclosed cp1 x \<noteq> None)"
proof -
  from body have v: "bindingsOf x cp1 = bindingsOf x cp @ [None]"
    by (simp add: keeps_def bindingsOf_def pushScope_def)
  from pop have s: "scopes cp2 = butlast (scopes cp1)" and e: "enclosed cp2 = Map.empty"
    by (auto simp: popScope_def split: if_splits)
  from v have "butlast (map (\<lambda>f. f x) (scopes cp1)) = map (\<lambda>f. f x) (scopes cp)"
    by (simp add: bindingsOf_def)
  with s have "bindingsOf x cp2 = bindingsOf x cp"
    by (simp add: bindingsOf_def map_butlast)
  moreover from body have "enclosed cp x \<noteq> None \<longrightarrow> enclosed cp1 x \<noteq> None"
    by (simp add: keeps_def pushScope_def)
  ultimately show ?thesis using e by simp
qed

lemma keeps_merge:
  assumes v: "bindingsOf x cp2 = bindingsOf x cp" and e: "enclosed cp2 = Map.empty"
    and m: "enclosed cp x \<noteq> None \<longrightarrow> enc x \<noteq> None"
    and mg: "compilePrimary_merge cp2 enc = Inr cp3"
  shows "keeps x cp cp3"
proof -
  from mg have s: "scopes cp3 = scopes cp2"
    and en: "enclosed cp3 x = (if enc x \<noteq> None \<and> last (scopes cp2) x = None then enc x else enclosed cp2 x)"
    by (auto simp: compilePrimary_merge_def split: if_splits)
  from s v have v3: "bindingsOf x cp3 = bindingsOf x cp" by (simp add: bindingsOf_def)
  show ?thesis
    unfolding keeps_def using v3 en m bindingsOf_last [OF v] by auto
qed

text \<open>Every compiling function keeps the bindings of \<open>x\<close> and its place in the capture set,
  and a closure's capture holds whatever the capture set held when its compilation began.\<close>

lemmas compile_induct = compilePipelines_compileClosure_compilePipeline_compileForms_compileForm_compileRedirs_compileRedir_compileCompounds_loop_compileCompounds_compileSpaced_compileCompound_compileSubscripts_compileSubscript_compileTablePairs_compilePrimary.induct

lemma compile_keeps:
  shows "wellBehaved bs x \<Longrightarrow> compilePipelines bs bf cp pns = Inr (r1, cp') \<Longrightarrow> keeps x cp cp'"
    and "wellBehaved bs x \<Longrightarrow> compileClosure bs bf cp cn = Inr (r2, cp') \<Longrightarrow>
           bindingsOf x cp' = bindingsOf x cp \<and> enclosed cp' = Map.empty \<and>
           (enclosed cp x \<noteq> None \<longrightarrow> snd r2 x \<noteq> None)"
    and "wellBehaved bs x \<Longrightarrow> compilePipeline bs bf cp pn = Inr (r3, cp') \<Longrightarrow> keeps x cp cp'"
    and "wellBehaved bs x \<Longrightarrow> compileForms bs bf cp fns = Inr (r4, cp') \<Longrightarrow> keeps x cp cp'"
    and "wellBehaved bs x \<Longrightarrow> compileForm bs bf cp fm = Inr (r5, cp') \<Longrightarrow> keeps x cp cp'"
    and "wellBehaved bs x \<Longrightarrow> compileRedirs bs bf cp ports rds = Inr (r6, cp') \<Longrightarrow> keeps x cp cp'"
    and "wellBehaved bs x \<Longrightarrow> compileRedir bs bf cp rd = Inr (r7, cp') \<Longrightarrow> keeps x cp cp'"
    and "wellBehaved bs x \<Longrightarrow> compileCompounds_loop bs bf cp tns = Inr (r8, cp') \<Longrightarrow> keeps x cp cp'"
    and "wellBehaved bs x \<Longrightarrow> compileCompounds bs bf cp tns = Inr (r9, cp') \<Longrightarrow> keeps x cp cp'"
    and "wellBehaved bs x \<Longrightarrow> compileSpaced bs bf cp sp = Inr (r10, cp') \<Longrightarrow> keeps x cp cp'"
    and "wellBehaved bs x \<Longrightarrow> compileCompound bs bf cp tn = Inr (r11, cp') \<Longrightarrow> keeps x cp cp'"
    and "wellBehaved bs x \<Longrightarrow> compileSubscripts bs bf cp sns = Inr (r12, cp') \<Longrightarrow> keeps x cp cp'"
    and "wellBehaved bs x \<Longrightarrow> compileSubscript bs bf cp sn = Inr (r13, cp') \<Longrightarrow> keeps x cp cp'"
    and "wellBehaved bs x \<Longrightarrow> compileTablePairs bs bf cp tps = Inr (r14, cp') \<Longrightarrow> keeps x cp cp'"
    and "wellBehaved bs x \<Longrightarrow> compilePrimary bs bf cp pr = Inr (r15, cp') \<Longrightarrow> keeps x cp cp'"
proof (induction bs bf cp pns and bs bf cp cn and bs bf cp pn and bs bf cp fns and bs bf cp fm
    and bs bf cp ports rds and bs bf cp rd and bs bf cp tns and bs bf cp tns and bs bf cp sp
    and bs bf cp tn and bs bf cp sns and bs bf cp sn and bs bf cp tps and bs bf cp pr
    arbitrary: r1 cp' and r2 cp' and r3 cp' and r4 cp' and r5 cp' and r6 cp' and r7 cp' and r8 cp'
      and r9 cp' and r10 cp' and r11 cp' and r12 cp' and r13 cp' and r14 cp' and r15 cp'
    rule: compile_induct)
  case (1 bs bf cp)
  then show ?case by simp
next
  case (2 bs bf cp pn pns)
  from "2.prems"(2) obtain op cp1 ops where
    a: "compilePipeline bs bf cp pn = Inr (op, cp1)" and
    b: "compilePipelines bs bf cp1 pns = Inr (ops, cp')"
    by (auto split: sum.splits)
  from "2.IH"(1) [OF "2.prems"(1) a] "2.IH"(2) [OF a refl "2.prems"(1) b]
  show ?case by (rule keeps_trans)
next
  case (3 bs bf cp pns)
  from "3.prems"(2) obtain ops cp1 where
    a: "compilePipelines bs bf (pushScope cp) pns = Inr (ops, cp1)" and
    b: "popScope (cp1\<lparr>enclosed := Map.empty\<rparr>) = Inr cp'" and
    c: "r2 = (CombineClosure ops (enclosed cp1), enclosed cp1)"
    by (auto split: sum.splits)
  from keeps_closure [OF "3.IH" [OF "3.prems"(1) a] b] c show ?case by simp
next
  case (4 bs bf cp p fns)
  then show ?case by (auto split: sum.splits)
next
  case (5 bs bf cp)
  then show ?case by simp
next
  case (6 bs bf cp fn fns)
  from "6.prems"(2) obtain op cp1 ops where
    a: "compileForm bs bf cp fn = Inr (op, cp1)" and
    b: "compileForms bs bf cp1 fns = Inr (ops, cp')"
    by (auto split: sum.splits)
  from "6.IH"(1) [OF "6.prems"(1) a] "6.IH"(2) [OF a refl "6.prems"(1) b]
  show ?case by (rule keeps_trans)
next
  case (7 bs bf cp p cpos sigil nodes args redirs)
  from "7.prems"(2) obtain command where n: "nodes = [SubscriptNode command None]"
    by (auto split: list.splits SubscriptNode.splits option.splits)
  from "7.prems"(2) n obtain cmdOp cp1 res cp2 ports cp3 where
    a: "compilePrimary bs bf cp command = Inr (cmdOp, cp1)" and
    b: "compileForm_switch bs bf cp1 cpos command = Inr (res, cp2)" and
    c: "compileRedirs bs bf cp2 (replicate (unat (nports 0 redirs)) None) redirs = Inr (ports, cp3)"
    by (auto split: sum.splits)
  have k1: "keeps x cp cp1" using "7.IH"(1) [OF n refl refl refl "7.prems"(1) a] .
  have k2: "keeps x cp1 cp2" using keeps_switch [OF b] .
  have k3: "keeps x cp2 cp3" using "7.IH"(2) [OF n refl refl refl a refl b refl "7.prems"(1) c] .
  have k4: "keeps x cp3 cp'"
  proof (cases "commandType res = commandBuiltinSpecial")
    case True
    with "7.prems"(2) n a b c obtain sp sop where
      s: "builtinSpecial res = Some sp" and
      d: "compile sp cp3 (FormNode p (CompoundNode cpos sigil nodes) args redirs) = Inr (sop, cp')"
      by (auto split: option.splits sum.splits)
    from switch_special [OF b True s] obtain nm where "bs nm = Some sp" by blast
    with "7.prems"(1) d show ?thesis unfolding wellBehaved_def by blast
  next
    case False
    with "7.prems"(2) n a b c obtain tlist where
      d: "compileSpaced bs bf cp3 args = Inr (tlist, cp')"
      by (auto split: sum.splits)
    from "7.IH"(3) [OF n refl refl refl a refl b refl c refl False "7.prems"(1) d] show ?thesis .
  qed
  from k1 k2 k3 k4 show ?case by (blast intro: keeps_trans)
next
  case (8 bs bf cp ports)
  then show ?case by simp
next
  case (9 bs bf cp ports rd rds)
  from "9.prems"(2) obtain pop cp1 where
    a: "compileRedir bs bf cp rd = Inr (pop, cp1)" and
    i: "unat (Fd rd) < length ports" and
    b: "compileRedirs bs bf cp1 (ports[unat (Fd rd) := Some pop]) rds = Inr (r6, cp')"
    by (auto split: sum.splits if_splits)
  from "9.IH"(1) [OF "9.prems"(1) a] "9.IH"(2) [OF a refl i "9.prems"(1) b]
  show ?case by (rule keeps_trans)
next
  case (10 bs bf cp fd)
  then show ?case by simp
next
  case (11 bs bf cp fd oldFd)
  then show ?case by simp
next
  case (12 bs bf cp p fd flag fname)
  then show ?case by (auto split: sum.splits)
next
  case (13 bs bf cp fd)
  then show ?case by simp
next
  case (14 bs bf cp)
  then show ?case by simp
next
  case (15 bs bf cp tn tns)
  from "15.prems"(2) obtain op cp1 ops where
    a: "compileCompound bs bf cp tn = Inr (op, cp1)" and
    b: "compileCompounds_loop bs bf cp1 tns = Inr (ops, cp')"
    by (auto split: sum.splits)
  from "15.IH"(1) [OF "15.prems"(1) a] "15.IH"(2) [OF a refl "15.prems"(1) b]
  show ?case by (rule keeps_trans)
next
  case (16 bs bf cp tns)
  then show ?case by (auto split: sum.splits)
next
  case (17 bs bf cp tns)
  then show ?case by simp
next
  case (18 bs bf cp p sigil sns)
  from "18.prems"(2) obtain ops cp1 where
    a: "compileSubscripts bs bf cp sns = Inr (ops, cp1)" and
    b: "keeps x cp1 cp'"
    by (auto split: sum.splits Sigil.splits prod.splits intro: keeps_resolveCommandI)
  from "18.IH" [OF "18.prems"(1) a] b show ?case by (rule keeps_trans)
next
  case (19 bs bf cp)
  then show ?case by simp
next
  case (20 bs bf cp sn sns)
  from "20.prems"(2) obtain op cp1 ops where
    a: "compileSubscript bs bf cp sn = Inr (op, cp1)" and
    b: "compileSubscripts bs bf cp1 sns = Inr (ops, cp')"
    by (auto split: sum.splits)
  from "20.IH"(1) [OF "20.prems"(1) a] "20.IH"(2) [OF a refl "20.prems"(1) b]
  show ?case by (rule keeps_trans)
next
  case (21 bs bf cp left)
  then show ?case by simp
next
  case (22 bs bf cp left right)
  from "22.prems"(2) obtain op cp1 rop where
    a: "compilePrimary bs bf cp left = Inr (op, cp1)" and
    b: "compileCompound bs bf cp1 right = Inr (rop, cp')"
    by (auto split: sum.splits)
  from "22.IH"(1) [OF "22.prems"(1) a] "22.IH"(2) [OF a refl "22.prems"(1) b]
  show ?case by (rule keeps_trans)
next
  case (23 bs bf cp)
  then show ?case by simp
next
  case (24 bs bf cp k v tps)
  from "24.prems"(2) obtain kOp cp1 vOp cp2 rest where
    a: "compileCompound bs bf cp k = Inr (kOp, cp1)" and
    b: "compileCompound bs bf cp1 v = Inr (vOp, cp2)" and
    c: "compileTablePairs bs bf cp2 tps = Inr (rest, cp')"
    by (auto split: sum.splits)
  from "24.IH"(1) [OF "24.prems"(1) a] "24.IH"(2) [OF a refl "24.prems"(1) b]
    "24.IH"(3) [OF a refl b refl "24.prems"(1) c]
  show ?case by (blast intro: keeps_trans)
next
  case (25 bs bf cp p tx)
  then show ?case by simp
next
  case (26 bs bf cp p nm)
  then show ?case by (auto intro: keeps_makeVar)
next
  case (27 bs bf cp p lst dict)
  from "27.prems"(2) obtain lop cp1 rest where
    a: "compileCompounds bs bf cp lst = Inr (lop, cp1)" and
    b: "compileTablePairs bs bf cp1 dict = Inr (rest, cp')"
    by (auto split: sum.splits)
  from "27.IH"(1) [OF "27.prems"(1) a] "27.IH"(2) [OF a refl "27.prems"(1) b]
  show ?case by (rule keeps_trans)
next
  case (28 bs bf cp p cn)
  from "28.prems"(2) obtain op enc cp2 where
    a: "compileClosure bs bf cp cn = Inr ((op, enc), cp2)" and
    b: "compilePrimary_merge cp2 enc = Inr cp'"
    by (auto split: sum.splits)
  from "28.IH" [OF "28.prems"(1) a] have
    "bindingsOf x cp2 = bindingsOf x cp" "enclosed cp2 = Map.empty"
    "enclosed cp x \<noteq> None \<longrightarrow> enc x \<noteq> None" by simp_all
  from keeps_merge [OF this b] show ?case .
next
  case (29 bs bf cp p sn)
  then show ?case by simp
next
  case (30 bs bf cp p pn)
  then show ?case by (auto split: sum.splits)
next
  case (31 bs bf cp p pn)
  then show ?case by simp
next
  case (32 bs bf cp p ty)
  then show ?case by simp
qed

lemma capturable_bindings:
  "capturable x cp \<longleftrightarrow>
     bindingsOf x cp \<noteq> [] \<and> last (bindingsOf x cp) = None \<and>
     (\<exists>b\<in>set (bindingsOf x cp). b \<noteq> None \<and> b \<noteq> Some None)"
proof -
  have "lookupType f x \<noteq> None \<longleftrightarrow> f x \<noteq> None \<and> f x \<noteq> Some None" for f :: scope
    by (cases "f x") (auto simp: lookupType_def)
  then show ?thesis
    by (auto simp: capturable_def bindingsOf_def last_map)
qed

lemma keeps_capturable: "keeps x cp cp' \<Longrightarrow> capturable x cp \<Longrightarrow> capturable x cp'"
  by (simp add: capturable_bindings keeps_def)

lemma keeps_captured: "keeps x cp cp' \<Longrightarrow> captured x cp \<Longrightarrow> captured x cp'"
  using keeps_capturable [of x cp cp']
  by (auto simp: captured_def keeps_def capturable_def)

lemma ResolveVar_loop_captures:
  "\<exists>i<k. lookupType (scopes cp ! i) nm \<noteq> None \<Longrightarrow>
   \<forall>i<k. lookupType (scopes cp ! i) nm \<noteq> None \<longrightarrow> int i < ts \<Longrightarrow>
   \<exists>t. ResolveVar_loop cp nm ts k = (Some t, cp\<lparr>enclosed := (enclosed cp)(nm \<mapsto> Some t)\<rparr>)"
proof (induction k)
  case 0
  then show ?case by simp
next
  case (Suc k)
  show ?case
  proof (cases "lookupType (scopes cp ! k) nm")
    case None
    with Suc.prems(1) have "\<exists>i<k. lookupType (scopes cp ! i) nm \<noteq> None"
      by (metis less_Suc_eq)
    moreover from Suc.prems(2) have "\<forall>i<k. lookupType (scopes cp ! i) nm \<noteq> None \<longrightarrow> int i < ts"
      by simp
    ultimately show ?thesis using Suc.IH None by simp
  next
    case (Some t)
    with Suc.prems(2) have "int k < ts" by simp
    with Some have "ResolveVar_loop cp nm ts (Suc k) =
        (Some t, cp\<lparr>enclosed := (enclosed cp)(nm \<mapsto> Some t)\<rparr>)" by simp
    then show ?thesis by (rule exI)
  qed
qed

lemma ResolveVar_capturable:
  assumes "capturable x cp"
  shows "\<exists>t. ResolveVar cp x = (Some t, cp\<lparr>enclosed := (enclosed cp)(x \<mapsto> Some t)\<rparr>)"
proof -
  from assms have ne: "scopes cp \<noteq> []" and l: "last (scopes cp) x = None"
    and ex: "\<exists>f\<in>set (scopes cp). lookupType f x \<noteq> None"
    by (simp_all add: capturable_def)
  from ex obtain i where i: "i < length (scopes cp)" "lookupType (scopes cp ! i) x \<noteq> None"
    by (auto simp: in_set_conv_nth)
  have top: "lookupType (scopes cp ! (length (scopes cp) - 1)) x = None"
    using ne l by (simp add: last_conv_nth lookupType_def)
  have "int j < int (length (scopes cp)) - 1"
    if "j < length (scopes cp)" "lookupType (scopes cp ! j) x \<noteq> None" for j
  proof -
    from that top have "j \<noteq> length (scopes cp) - 1" by auto
    with that(1) show ?thesis by simp
  qed
  with i ResolveVar_loop_captures [of "length (scopes cp)" cp x "int (length (scopes cp)) - 1"]
  show ?thesis by (auto simp: ResolveVar_def)
qed

lemma captured_update:
  "capturable x cp \<Longrightarrow> captured x (cp\<lparr>enclosed := (enclosed cp)(x \<mapsto> t)\<rparr>)"
  by (simp add: captured_def capturable_def)

lemma makeVar_captures:
  assumes "capturable x cp" and "makeVar cp x p = Inr (r, cp')"
  shows "captured x cp'"
proof -
  from ResolveVar_capturable [OF assms(1)] obtain t where
    "ResolveVar cp x = (Some t, cp\<lparr>enclosed := (enclosed cp)(x \<mapsto> Some t)\<rparr>)" by blast
  with assms(2) have "cp' = cp\<lparr>enclosed := (enclosed cp)(x \<mapsto> Some t)\<rparr>"
    by (simp add: makeVar_def mustResolveVar_def)
  with captured_update [OF assms(1)] show ?thesis by simp
qed

lemma resolveCommand_captures:
  assumes "capturable (''fn-'' @ nm) cp" and "resolveCommand bs bf cp nm cr = (r, cp')"
  shows "captured (''fn-'' @ nm) cp'"
proof -
  from ResolveVar_capturable [OF assms(1)] obtain t where
    "ResolveVar cp (''fn-'' @ nm) =
       (Some t, cp\<lparr>enclosed := (enclosed cp)(''fn-'' @ nm \<mapsto> Some t)\<rparr>)" by blast
  with assms(2) have "cp' = cp\<lparr>enclosed := (enclosed cp)(''fn-'' @ nm \<mapsto> Some t)\<rparr>"
    by (simp add: resolveCommand_def)
  with captured_update [OF assms(1)] show ?thesis by simp
qed

text \<open>A node of a list that a loop compiled was compiled from a state that the nodes before
  it left, and the nodes after it started from the state it left.\<close>

lemma compilePipelines_member:
  assumes "wellBehaved bs x"
  shows "compilePipelines bs bf cp pns = Inr (ops, cp') \<Longrightarrow> pn \<in> set pns \<Longrightarrow>
    \<exists>cpa op cpb. keeps x cp cpa \<and> compilePipeline bs bf cpa pn = Inr (op, cpb) \<and> keeps x cpb cp'"
proof (induction pns arbitrary: cp ops)
  case Nil
  then show ?case by simp
next
  case (Cons a pns)
  from Cons.prems(1) obtain op cp1 ops1 where
    a: "compilePipeline bs bf cp a = Inr (op, cp1)" and
    b: "compilePipelines bs bf cp1 pns = Inr (ops1, cp')"
    by (auto split: sum.splits)
  show ?case
  proof (cases "pn = a")
    case True
    with a compile_keeps(1) [OF assms b] show ?thesis by (metis keeps_refl)
  next
    case False
    with Cons.prems(2) have "pn \<in> set pns" by simp
    from Cons.IH [OF b this] compile_keeps(3) [OF assms a] show ?thesis
      by (metis keeps_trans)
  qed
qed

lemma compileForms_member:
  assumes "wellBehaved bs x"
  shows "compileForms bs bf cp fns = Inr (ops, cp') \<Longrightarrow> fm \<in> set fns \<Longrightarrow>
    \<exists>cpa op cpb. keeps x cp cpa \<and> compileForm bs bf cpa fm = Inr (op, cpb) \<and> keeps x cpb cp'"
proof (induction fns arbitrary: cp ops)
  case Nil
  then show ?case by simp
next
  case (Cons a fns)
  from Cons.prems(1) obtain op cp1 ops1 where
    a: "compileForm bs bf cp a = Inr (op, cp1)" and
    b: "compileForms bs bf cp1 fns = Inr (ops1, cp')"
    by (auto split: sum.splits)
  show ?case
  proof (cases "fm = a")
    case True
    with a compile_keeps(4) [OF assms b] show ?thesis by (metis keeps_refl)
  next
    case False
    with Cons.prems(2) have "fm \<in> set fns" by simp
    from Cons.IH [OF b this] compile_keeps(5) [OF assms a] show ?thesis
      by (metis keeps_trans)
  qed
qed

lemma compileRedirs_member:
  assumes "wellBehaved bs x"
  shows "compileRedirs bs bf cp ports rds = Inr (ports', cp') \<Longrightarrow> rd \<in> set rds \<Longrightarrow>
    \<exists>cpa op cpb. keeps x cp cpa \<and> compileRedir bs bf cpa rd = Inr (op, cpb) \<and> keeps x cpb cp'"
proof (induction rds arbitrary: cp ports)
  case Nil
  then show ?case by simp
next
  case (Cons a rds)
  from Cons.prems(1) obtain op cp1 where
    a: "compileRedir bs bf cp a = Inr (op, cp1)" and
    b: "compileRedirs bs bf cp1 (ports[unat (Fd a) := Some op]) rds = Inr (ports', cp')"
    by (auto split: sum.splits if_splits)
  show ?case
  proof (cases "rd = a")
    case True
    with a compile_keeps(6) [OF assms b] show ?thesis by (metis keeps_refl)
  next
    case False
    with Cons.prems(2) have "rd \<in> set rds" by simp
    from Cons.IH [OF b this] compile_keeps(7) [OF assms a] show ?thesis
      by (metis keeps_trans)
  qed
qed

lemma compileCompounds_loop_member:
  assumes "wellBehaved bs x"
  shows "compileCompounds_loop bs bf cp tns = Inr (ops, cp') \<Longrightarrow> tn \<in> set tns \<Longrightarrow>
    \<exists>cpa op cpb. keeps x cp cpa \<and> compileCompound bs bf cpa tn = Inr (op, cpb) \<and> keeps x cpb cp'"
proof (induction tns arbitrary: cp ops)
  case Nil
  then show ?case by simp
next
  case (Cons a tns)
  from Cons.prems(1) obtain op cp1 ops1 where
    a: "compileCompound bs bf cp a = Inr (op, cp1)" and
    b: "compileCompounds_loop bs bf cp1 tns = Inr (ops1, cp')"
    by (auto split: sum.splits)
  show ?case
  proof (cases "tn = a")
    case True
    with a compile_keeps(8) [OF assms b] show ?thesis by (metis keeps_refl)
  next
    case False
    with Cons.prems(2) have "tn \<in> set tns" by simp
    from Cons.IH [OF b this] compile_keeps(11) [OF assms a] show ?thesis
      by (metis keeps_trans)
  qed
qed

lemma compileSubscripts_member:
  assumes "wellBehaved bs x"
  shows "compileSubscripts bs bf cp sns = Inr (ops, cp') \<Longrightarrow> sn \<in> set sns \<Longrightarrow>
    \<exists>cpa op cpb. keeps x cp cpa \<and> compileSubscript bs bf cpa sn = Inr (op, cpb) \<and> keeps x cpb cp'"
proof (induction sns arbitrary: cp ops)
  case Nil
  then show ?case by simp
next
  case (Cons a sns)
  from Cons.prems(1) obtain op cp1 ops1 where
    a: "compileSubscript bs bf cp a = Inr (op, cp1)" and
    b: "compileSubscripts bs bf cp1 sns = Inr (ops1, cp')"
    by (auto split: sum.splits)
  show ?case
  proof (cases "sn = a")
    case True
    with a compile_keeps(12) [OF assms b] show ?thesis by (metis keeps_refl)
  next
    case False
    with Cons.prems(2) have "sn \<in> set sns" by simp
    from Cons.IH [OF b this] compile_keeps(13) [OF assms a] show ?thesis
      by (metis keeps_trans)
  qed
qed

lemma compileTablePairs_member:
  assumes "wellBehaved bs x"
  shows "compileTablePairs bs bf cp tps = Inr (ops, cp') \<Longrightarrow> TablePair k v \<in> set tps \<Longrightarrow>
    \<exists>cpa kOp cpb vOp cpc. keeps x cp cpa \<and> compileCompound bs bf cpa k = Inr (kOp, cpb) \<and>
       compileCompound bs bf cpb v = Inr (vOp, cpc) \<and> keeps x cpc cp'"
proof (induction tps arbitrary: cp ops)
  case Nil
  then show ?case by simp
next
  case (Cons a tps)
  obtain k0 v0 where a0: "a = TablePair k0 v0" by (cases a) auto
  from Cons.prems(1) a0 obtain kOp cp1 vOp cp2 rest where
    a: "compileCompound bs bf cp k0 = Inr (kOp, cp1)" and
    b: "compileCompound bs bf cp1 v0 = Inr (vOp, cp2)" and
    c: "compileTablePairs bs bf cp2 tps = Inr (rest, cp')"
    by (auto split: sum.splits)
  show ?case
  proof (cases "TablePair k v = a")
    case True
    with a0 a b compile_keeps(14) [OF assms c] show ?thesis by (metis TablePair.inject keeps_refl)
  next
    case False
    with Cons.prems(2) have "TablePair k v \<in> set tps" by simp
    from Cons.IH [OF c this] compile_keeps(11) [OF assms a] compile_keeps(11) [OF assms b]
    show ?thesis by (metis keeps_trans)
  qed
qed

lemma switch_notSpecial:
  "compileForm_switch bs bf cp cpos command = Inr (res, cp') \<Longrightarrow> notSpecial bs command \<Longrightarrow>
   commandType res \<noteq> commandBuiltinSpecial"
  by (cases command)
     (auto simp: compileForm_switch_def resolveCommand_def emptyResolution_def notSpecial_def
           split: prod.splits if_splits option.splits)

lemma compileForm_parts:
  assumes wb: "wellBehaved bs x"
    and c: "compileForm bs bf cp (FormNode p (CompoundNode cpos sg nodes) args redirs) = Inr (r, cp')"
  shows "\<exists>command cmdOp cp1 res cp2 ports cp3.
           nodes = [SubscriptNode command None] \<and>
           compilePrimary bs bf cp command = Inr (cmdOp, cp1) \<and>
           compileForm_switch bs bf cp1 cpos command = Inr (res, cp2) \<and>
           compileRedirs bs bf cp2 (replicate (unat (nports 0 redirs)) None) redirs = Inr (ports, cp3) \<and>
           keeps x cp3 cp' \<and>
           (commandType res \<noteq> commandBuiltinSpecial \<longrightarrow>
              (\<exists>tlist. compileSpaced bs bf cp3 args = Inr (tlist, cp')))"
proof -
  from c obtain command where n: "nodes = [SubscriptNode command None]"
    by (auto split: list.splits SubscriptNode.splits option.splits)
  from c n obtain cmdOp cp1 res cp2 ports cp3 where
    a: "compilePrimary bs bf cp command = Inr (cmdOp, cp1)" and
    b: "compileForm_switch bs bf cp1 cpos command = Inr (res, cp2)" and
    d: "compileRedirs bs bf cp2 (replicate (unat (nports 0 redirs)) None) redirs = Inr (ports, cp3)"
    by (auto split: sum.splits)
  have "keeps x cp3 cp' \<and>
        (commandType res \<noteq> commandBuiltinSpecial \<longrightarrow>
           (\<exists>tlist. compileSpaced bs bf cp3 args = Inr (tlist, cp')))"
  proof (cases "commandType res = commandBuiltinSpecial")
    case True
    with c n a b d obtain sp sop where
      s: "builtinSpecial res = Some sp" and
      e: "compile sp cp3 (FormNode p (CompoundNode cpos sg nodes) args redirs) = Inr (sop, cp')"
      by (auto split: option.splits sum.splits)
    from switch_special [OF b True s] obtain nm where "bs nm = Some sp" by blast
    with wb e have "keeps x cp3 cp'" unfolding wellBehaved_def by blast
    with True show ?thesis by simp
  next
    case False
    with c n a b d obtain tlist where
      e: "compileSpaced bs bf cp3 args = Inr (tlist, cp')"
      by (auto split: sum.splits)
    with compile_keeps(10) [OF wb e] show ?thesis by blast
  qed
  with n a b d show ?thesis by blast
qed

lemma compileForm_command_parts:
  assumes wb: "wellBehaved bs x"
    and c: "compileForm bs bf cp
              (FormNode p (CompoundNode cpos sg [SubscriptNode command None]) args redirs) = Inr (r, cp')"
  shows "\<exists>cmdOp cp1 res cp2 ports cp3.
           compilePrimary bs bf cp command = Inr (cmdOp, cp1) \<and>
           compileForm_switch bs bf cp1 cpos command = Inr (res, cp2) \<and>
           compileRedirs bs bf cp2 (replicate (unat (nports 0 redirs)) None) redirs = Inr (ports, cp3) \<and>
           keeps x cp3 cp' \<and>
           (commandType res \<noteq> commandBuiltinSpecial \<longrightarrow>
              (\<exists>tlist. compileSpaced bs bf cp3 args = Inr (tlist, cp')))"
  using compileForm_parts [OF wb c] by simp

lemma closure_body_captures:
  assumes wb: "wellBehaved bs x"
    and H: "\<And>cp r cp'. capturable x cp \<Longrightarrow> compilePipeline bs bf cp pn = Inr (r, cp') \<Longrightarrow>
              captured x cp'"
    and m: "pn \<in> set pns"
    and c: "compileClosure bs bf cp (ClosureNode (ChunkNode pns)) = Inr ((op, enc), cp2)"
    and b: "\<exists>f\<in>set (scopes cp). lookupType f x \<noteq> None"
  shows "enc x \<noteq> None"
proof -
  from c obtain ops cp1 where
    body: "compilePipelines bs bf (pushScope cp) pns = Inr (ops, cp1)" and
    enc: "enc = enclosed cp1"
    by (auto split: sum.splits)
  from b have cap: "capturable x (pushScope cp)"
    by (auto simp: capturable_def pushScope_def)
  from compilePipelines_member [OF wb body m] obtain cpa r cpb where
    k1: "keeps x (pushScope cp) cpa" and
    cpn: "compilePipeline bs bf cpa pn = Inr (r, cpb)" and
    k2: "keeps x cpb cp1" by blast
  from keeps_capturable [OF k1 cap] have "capturable x cpa" .
  from H [OF this cpn] have "captured x cpb" .
  from keeps_captured [OF k2 this] enc show ?thesis by (simp add: captured_def)
qed

lemma merge_enclosed:
  "compilePrimary_merge cp2 enc = Inr cp' \<Longrightarrow>
   scopes cp' = scopes cp2 \<and>
   enclosed cp' x = (if enc x \<noteq> None \<and> last (scopes cp2) x = None then enc x else enclosed cp2 x)"
  by (auto simp: compilePrimary_merge_def split: if_splits)

text \<open>A reference to a name that can be captured leaves the name captured, whatever is
  compiled around the reference.\<close>

lemma reference_captured:
  assumes wb: "wellBehaved bs x"
  shows "refPipeline bs commands x pn \<Longrightarrow> capturable x cp \<Longrightarrow>
           compilePipeline bs bf cp pn = Inr (r3, cp') \<Longrightarrow> captured x cp'"
    and "refForm bs commands x fm \<Longrightarrow> capturable x cp \<Longrightarrow>
           compileForm bs bf cp fm = Inr (r5, cp') \<Longrightarrow> captured x cp'"
    and "refRedir bs commands x rd \<Longrightarrow> capturable x cp \<Longrightarrow>
           compileRedir bs bf cp rd = Inr (r7, cp') \<Longrightarrow> captured x cp'"
    and "refCompound bs commands x tn \<Longrightarrow> capturable x cp \<Longrightarrow>
           compileCompound bs bf cp tn = Inr (r11, cp') \<Longrightarrow> captured x cp'"
    and "refSubscript bs commands x sn \<Longrightarrow> capturable x cp \<Longrightarrow>
           compileSubscript bs bf cp sn = Inr (r13, cp') \<Longrightarrow> captured x cp'"
    and "refPrimary bs commands x pr \<Longrightarrow> capturable x cp \<Longrightarrow>
           compilePrimary bs bf cp pr = Inr (r15, cp') \<Longrightarrow> captured x cp'"
proof (induction arbitrary: cp r3 cp' and cp r5 cp' and cp r7 cp' and cp r11 cp' and cp r13 cp'
    and cp r15 cp'
    rule: refPipeline_refForm_refRedir_refCompound_refSubscript_refPrimary.inducts)
  case (refStage fm fns p)
  from refStage.prems(2) obtain ops where
    "compileForms bs bf cp fns = Inr (ops, cp')" by (auto split: sum.splits)
  from compileForms_member [OF wb this refStage.hyps(1)] obtain cpa op cpb where
    k1: "keeps x cp cpa" and c: "compileForm bs bf cpa fm = Inr (op, cpb)" and
    k2: "keeps x cpb cp'" by blast
  from refStage.IH(2) [OF keeps_capturable [OF k1 refStage.prems(1)] c] k2
  show ?case by (blast intro: keeps_captured)
next
  case (refCommandName nm p cpos sg pp args redirs)
  from compileForm_command_parts [OF wb refCommandName.prems(2)] obtain cmdOp cp1 res cp2 ports cp3 where
    a: "compilePrimary bs bf cp (StringPrimary pp nm) = Inr (cmdOp, cp1)" and
    b0: "compileForm_switch bs bf cp1 cpos (StringPrimary pp nm) = Inr (res, cp2)" and
    d: "compileRedirs bs bf cp2 (replicate (unat (nports 0 redirs)) None) redirs = Inr (ports, cp3)" and
    k: "keeps x cp3 cp'"
    by blast
  from a have "cp1 = cp" by simp
  with b0 have "resolveCommand bs bf cp nm emptyResolution = (res, cp2)"
    by (simp add: compileForm_switch_def)
  from resolveCommand_captures [OF _ this] refCommandName(2) refCommandName.prems(1)
  have "captured x cp2" by simp
  from keeps_captured [OF compile_keeps(6) [OF wb d] this] k
  show ?case by (blast intro: keeps_captured)
next
  case (refCommand command p cpos sg args redirs)
  from compileForm_command_parts [OF wb refCommand.prems(2)] obtain cmdOp cp1 res cp2 ports cp3 where
    a: "compilePrimary bs bf cp command = Inr (cmdOp, cp1)" and
    b: "compileForm_switch bs bf cp1 cpos command = Inr (res, cp2)" and
    d: "compileRedirs bs bf cp2 (replicate (unat (nports 0 redirs)) None) redirs = Inr (ports, cp3)" and
    k: "keeps x cp3 cp'"
    by blast
  from refCommand.IH(2) [OF refCommand.prems(1) a] have "captured x cp1" .
  from keeps_captured [OF keeps_switch [OF b] this] have "captured x cp2" .
  from keeps_captured [OF compile_keeps(6) [OF wb d] this] k
  show ?case by (blast intro: keeps_captured)
next
  case (refRedirection rd redirs p cmd args)
  obtain cpos sg nodes where cmd: "cmd = CompoundNode cpos sg nodes" by (cases cmd) auto
  from compileForm_parts [OF wb refRedirection.prems(2) [unfolded cmd]]
  obtain command cmdOp cp1 res cp2 ports cp3 where
    a: "compilePrimary bs bf cp command = Inr (cmdOp, cp1)" and
    b: "compileForm_switch bs bf cp1 cpos command = Inr (res, cp2)" and
    d: "compileRedirs bs bf cp2 (replicate (unat (nports 0 redirs)) None) redirs = Inr (ports, cp3)" and
    k: "keeps x cp3 cp'"
    by blast
  from keeps_capturable [OF compile_keeps(15) [OF wb a] refRedirection.prems(1)]
  have "capturable x cp1" .
  from keeps_capturable [OF keeps_switch [OF b] this] have c2: "capturable x cp2" .
  from compileRedirs_member [OF wb d refRedirection.hyps(1)] obtain cpa op cpb where
    k1: "keeps x cp2 cpa" and c: "compileRedir bs bf cpa rd = Inr (op, cpb)" and
    k2: "keeps x cpb cp3" by blast
  from refRedirection.IH(2) [OF keeps_capturable [OF k1 c2] c] have "captured x cpb" .
  from keeps_captured [OF k2 this] k show ?case by (blast intro: keeps_captured)
next
  case (refArgument tn tns command p cpos sg redirs)
  from compileForm_command_parts [OF wb refArgument.prems(2)] obtain cmdOp cp1 res cp2 ports cp3 where
    a: "compilePrimary bs bf cp command = Inr (cmdOp, cp1)" and
    b: "compileForm_switch bs bf cp1 cpos command = Inr (res, cp2)" and
    d: "compileRedirs bs bf cp2 (replicate (unat (nports 0 redirs)) None) redirs = Inr (ports, cp3)" and
    e: "commandType res \<noteq> commandBuiltinSpecial \<longrightarrow>
          (\<exists>tlist. compileSpaced bs bf cp3 (SpacedNode tns) = Inr (tlist, cp'))"
    by blast
  from switch_notSpecial [OF b refArgument.IH(3)] e obtain ops where
    f: "compileCompounds_loop bs bf cp3 tns = Inr (ops, cp')"
    by (auto split: sum.splits)
  from keeps_capturable [OF compile_keeps(15) [OF wb a] refArgument.prems(1)]
  have "capturable x cp1" .
  from keeps_capturable [OF keeps_switch [OF b] this] have "capturable x cp2" .
  from keeps_capturable [OF compile_keeps(6) [OF wb d] this] have c3: "capturable x cp3" .
  from compileCompounds_loop_member [OF wb f refArgument.hyps(1)] obtain cpa op cpb where
    k1: "keeps x cp3 cpa" and c: "compileCompound bs bf cpa tn = Inr (op, cpb)" and
    k2: "keeps x cpb cp'" by blast
  from refArgument.IH(2) [OF keeps_capturable [OF k1 c3] c] k2
  show ?case by (blast intro: keeps_captured)
next
  case (refFilename fname p fd flag)
  from refFilename.prems(2) obtain fop where
    "compileCompound bs bf cp fname = Inr (fop, cp')" by (auto split: sum.splits)
  from refFilename.IH(2) [OF refFilename.prems(1) this] show ?case .
next
  case (refSigil c p sns)
  from refSigil.prems(2) obtain ops cp1 cr where
    a: "compileSubscripts bs bf cp sns = Inr (ops, cp1)" and
    b: "resolveCommand bs bf cp1 [c] emptyResolution = (cr, cp')"
    by (auto split: sum.splits prod.splits)
  from keeps_capturable [OF compile_keeps(12) [OF wb a] refSigil.prems(1)]
  have "capturable x cp1" .
  with resolveCommand_captures [OF _ b] refSigil(2) show ?case by simp
next
  case (refPart sn sns p sg)
  from refPart.prems(2) obtain ops cp1 where
    a: "compileSubscripts bs bf cp sns = Inr (ops, cp1)" and
    b: "keeps x cp1 cp'"
    by (auto split: sum.splits Sigil.splits prod.splits intro: keeps_resolveCommandI)
  from compileSubscripts_member [OF wb a refPart.hyps(1)] obtain cpa op cpb where
    k1: "keeps x cp cpa" and c: "compileSubscript bs bf cpa sn = Inr (op, cpb)" and
    k2: "keeps x cpb cp1" by blast
  from refPart.IH(2) [OF keeps_capturable [OF k1 refPart.prems(1)] c] k2 b
  show ?case by (blast intro: keeps_captured)
next
  case (refLeft left right)
  show ?case
  proof (cases right)
    case None
    with refLeft.prems(2) refLeft.IH(2) [OF refLeft.prems(1)] show ?thesis by simp
  next
    case (Some rt)
    with refLeft.prems(2) obtain lop cp1 rop where
      a: "compilePrimary bs bf cp left = Inr (lop, cp1)" and
      b: "compileCompound bs bf cp1 rt = Inr (rop, cp')"
      by (auto split: sum.splits)
    from refLeft.IH(2) [OF refLeft.prems(1) a] compile_keeps(11) [OF wb b]
    show ?thesis by (blast intro: keeps_captured)
  qed
next
  case (refRight right left)
  from refRight.prems(2) obtain lop cp1 rop where
    a: "compilePrimary bs bf cp left = Inr (lop, cp1)" and
    b: "compileCompound bs bf cp1 right = Inr (rop, cp')"
    by (auto split: sum.splits)
  from refRight.IH(2) [OF keeps_capturable [OF compile_keeps(15) [OF wb a] refRight.prems(1)] b]
  show ?case .
next
  case (refVariable p)
  then show ?case by (auto intro: makeVar_captures)
next
  case (refTableList tn lst p dict)
  from refTableList.prems(2) obtain ops cp1 rest where
    a: "compileCompounds_loop bs bf cp lst = Inr (ops, cp1)" and
    b: "compileTablePairs bs bf cp1 dict = Inr (rest, cp')"
    by (auto split: sum.splits)
  from compileCompounds_loop_member [OF wb a refTableList.hyps(1)] obtain cpa op cpb where
    k1: "keeps x cp cpa" and c: "compileCompound bs bf cpa tn = Inr (op, cpb)" and
    k2: "keeps x cpb cp1" by blast
  from refTableList.IH(2) [OF keeps_capturable [OF k1 refTableList.prems(1)] c] k2
    compile_keeps(14) [OF wb b]
  show ?case by (blast intro: keeps_captured)
next
  case (refTableKey k v dict p lst)
  from refTableKey.prems(2) obtain lop cp1 rest where
    a: "compileCompounds bs bf cp lst = Inr (lop, cp1)" and
    b: "compileTablePairs bs bf cp1 dict = Inr (rest, cp')"
    by (auto split: sum.splits)
  from keeps_capturable [OF compile_keeps(9) [OF wb a] refTableKey.prems(1)]
  have c1: "capturable x cp1" .
  from compileTablePairs_member [OF wb b refTableKey.hyps(1)] obtain cpa kOp cpb vOp cpc where
    k1: "keeps x cp1 cpa" and ck: "compileCompound bs bf cpa k = Inr (kOp, cpb)" and
    cv: "compileCompound bs bf cpb v = Inr (vOp, cpc)" and k2: "keeps x cpc cp'" by blast
  from refTableKey.IH(2) [OF keeps_capturable [OF k1 c1] ck] compile_keeps(11) [OF wb cv] k2
  show ?case by (blast intro: keeps_captured)
next
  case (refTableValue k v dict p lst)
  from refTableValue.prems(2) obtain lop cp1 rest where
    a: "compileCompounds bs bf cp lst = Inr (lop, cp1)" and
    b: "compileTablePairs bs bf cp1 dict = Inr (rest, cp')"
    by (auto split: sum.splits)
  from keeps_capturable [OF compile_keeps(9) [OF wb a] refTableValue.prems(1)]
  have c1: "capturable x cp1" .
  from compileTablePairs_member [OF wb b refTableValue.hyps(1)] obtain cpa kOp cpb vOp cpc where
    k1: "keeps x cp1 cpa" and ck: "compileCompound bs bf cpa k = Inr (kOp, cpb)" and
    cv: "compileCompound bs bf cpb v = Inr (vOp, cpc)" and k2: "keeps x cpc cp'" by blast
  from keeps_capturable [OF compile_keeps(11) [OF wb ck] keeps_capturable [OF k1 c1]]
  have "capturable x cpb" .
  from refTableValue.IH(2) [OF this cv] k2 show ?case by (blast intro: keeps_captured)
next
  case (refClosure pn pns p)
  from refClosure.prems(2) obtain op enc cp2 where
    a: "compileClosure bs bf cp (ClosureNode (ChunkNode pns)) = Inr ((op, enc), cp2)" and
    b: "compilePrimary_merge cp2 enc = Inr cp'"
    by (auto split: sum.splits)
  from refClosure.prems(1) have bound: "\<exists>f\<in>set (scopes cp). lookupType f x \<noteq> None"
    and ne: "scopes cp \<noteq> []" and l: "last (scopes cp) x = None"
    by (simp_all add: capturable_def)
  have enc: "enc x \<noteq> None"
    by (rule closure_body_captures [OF wb refClosure.IH(2) refClosure.hyps(1) a bound])
  from compile_keeps(2) [OF wb a] have v: "bindingsOf x cp2 = bindingsOf x cp" by simp
  from bindingsOf_last [OF v ne] l have "last (scopes cp2) x = None" by simp
  with merge_enclosed [OF b, of x] enc have e: "enclosed cp' x \<noteq> None" by simp
  from merge_enclosed [OF b, of x] v have "bindingsOf x cp' = bindingsOf x cp"
    by (simp add: bindingsOf_def)
  with refClosure.prems(1) have "capturable x cp'" by (simp add: capturable_bindings)
  with e show ?case by (simp add: captured_def)
next
  case (refList tn tns p)
  from refList.prems(2) obtain ops where
    a: "compileCompounds_loop bs bf cp tns = Inr (ops, cp')"
    by (auto split: sum.splits)
  from compileCompounds_loop_member [OF wb a refList.hyps(1)] obtain cpa op cpb where
    k1: "keeps x cp cpa" and c: "compileCompound bs bf cpa tn = Inr (op, cpb)" and
    k2: "keeps x cpb cp'" by blast
  from refList.IH(2) [OF keeps_capturable [OF k1 refList.prems(1)] c] k2
  show ?case by (blast intro: keeps_captured)
next
  case (refChanCapture pn p)
  from refChanCapture.prems(2) obtain op where
    "compilePipeline bs bf cp pn = Inr (op, cp')" by (auto split: sum.splits)
  from refChanCapture.IH(2) [OF refChanCapture.prems(1) this] show ?case .
next
  case (refStatusCapture pn p)
  from refStatusCapture.prems(2) refStatusCapture.IH(2) [OF refStatusCapture.prems(1)]
  show ?case by simp
qed

section \<open>Captures of closures\<close>

text \<open>C3. A closure whose body references a name bound in an enclosing frame, at any depth
  of nesting, holds the name in its capture. Compiling the closure primary leaves the name
  in the capture set of the enclosing unit when the frame of that unit does not hold the
  name, and leaves the name out when that frame binds it. For a doubly nested closure that
  references a name of the outermost scope, the innermost closure is this closure and the
  middle closure the enclosing unit; the theorem at the middle closure gives its capture.\<close>

theorem transitive_capture:
  assumes wb: "wellBehaved bs x"
    and c: "compilePrimary bs bf cp (ClosurePrimary p cn) = Inr (op, cp')"
    and r: "refPrimary bs commands x (ClosurePrimary p cn)"
    and b: "\<exists>f\<in>set (scopes cp). lookupType f x \<noteq> None"
  shows "\<exists>ops enc. op = CombineClosure ops enc \<and> enc x \<noteq> None \<and>
           (if last (scopes cp) x = None then enclosed cp' x \<noteq> None else enclosed cp' x = None)"
proof -
  from r obtain pns pn where
    cn: "cn = ClosureNode (ChunkNode pns)" and m: "pn \<in> set pns" and rp: "refPipeline bs commands x pn"
    by (auto elim: refPrimary.cases)
  from c cn obtain enc cp2 where
    a: "compileClosure bs bf cp (ClosureNode (ChunkNode pns)) = Inr ((op, enc), cp2)" and
    mg: "compilePrimary_merge cp2 enc = Inr cp'"
    by (auto split: sum.splits)
  from a obtain ops where op: "op = CombineClosure ops enc" by (auto split: sum.splits)
  have enc: "enc x \<noteq> None"
    by (rule closure_body_captures [OF wb reference_captured(1) [OF wb rp] m a b])
  from b have ne: "scopes cp \<noteq> []" by auto
  from compile_keeps(2) [OF wb a] have v: "bindingsOf x cp2 = bindingsOf x cp"
    and e2: "enclosed cp2 = Map.empty" by simp_all
  from bindingsOf_last [OF v ne] have "last (scopes cp2) x = last (scopes cp) x" by simp
  with merge_enclosed [OF mg, of x] enc e2
  have "if last (scopes cp) x = None then enclosed cp' x \<noteq> None else enclosed cp' x = None"
    by simp
  with op enc show ?thesis by blast
qed

lemma wellBehaved_nop: "wellBehaved nop_registry x"
  by (auto simp: wellBehaved_def nop_registry_def sp0_def split: if_splits)

lemma ref_inner: "refPrimary nop_registry False ''x'' inner_closure"
proof -
  have a: "refPrimary nop_registry False ''x'' (VariablePrimary 8 ''x'')" by (rule refVariable)
  have b: "refSubscript nop_registry False ''x'' (SubscriptNode (VariablePrimary 8 ''x'') None)"
    by (rule refLeft [OF a])
  have c: "refCompound nop_registry False ''x''
             (CompoundNode 8 NoSigil [SubscriptNode (VariablePrimary 8 ''x'') None])"
    by (rule refPart [OF _ b]) simp
  have d: "refForm nop_registry False ''x'' (form_of 4 (StringPrimary 4 ''put'')
             [CompoundNode 8 NoSigil [SubscriptNode (VariablePrimary 8 ''x'') None]])"
    unfolding form_of_def
    by (rule refArgument [OF _ c]) (simp_all add: notSpecial_def nop_registry_def)
  have e: "refPipeline nop_registry False ''x'' put_x"
    unfolding put_x_def by (rule refStage [OF _ d]) simp
  show ?thesis
    unfolding inner_closure_def by (rule refClosure [OF _ e]) simp
qed

lemma ref_nested: "refPrimary nop_registry False ''x'' nested_closure"
proof -
  have d: "refForm nop_registry False ''x'' (form_of 2 inner_closure [])"
    unfolding form_of_def by (rule refCommand [OF ref_inner])
  have e: "refPipeline nop_registry False ''x'' (PipelineNode 2 [form_of 2 inner_closure []])"
    by (rule refStage [OF _ d]) simp
  show ?thesis
    unfolding nested_closure_def by (rule refClosure [OF _ e]) simp
qed

lemma nested_compiles:
  "compilePrimary nop_registry Map.empty cp_x nested_closure =
     Inr (CombineClosure
            [CombinePipeline [CombineForm
               (CombineClosure [put_x_op] [''x'' \<mapsto> Some StringType])
               (Some (CombineSpaced [])) [] closureRes 2] 2]
            [''x'' \<mapsto> Some StringType], cp_x)"
  apply (simp add: nested_closure_def inner_closure_def put_x_def put_x_op_def form_of_def cp_x_def
      pushScope_def popScope_def compilePrimary_merge_def compileForm_switch_def
      resolveCommand_def ResolveVar_def lookupType_def closureRes_def nop_registry_def
      makeVar_def mustResolveVar_def)
  apply (auto simp: fun_eq_iff)
  done

lemma inner_compiles_rebound:
  "compilePrimary nop_registry Map.empty cp_x_rebound inner_closure =
     Inr (CombineClosure [put_x_op] [''x'' \<mapsto> Some ClosureType], cp_x_rebound)"
  apply (simp add: inner_closure_def put_x_def put_x_op_def form_of_def cp_x_rebound_def
      pushScope_def popScope_def compilePrimary_merge_def compileForm_switch_def
      resolveCommand_def ResolveVar_def lookupType_def closureRes_def nop_registry_def
      makeVar_def mustResolveVar_def)
  apply (auto simp: fun_eq_iff)
  done

theorem transitive_capture_witness:
  "compilePrimary nop_registry Map.empty cp_x nested_closure =
     Inr (CombineClosure
            [CombinePipeline [CombineForm
               (CombineClosure [put_x_op] [''x'' \<mapsto> Some StringType])
               (Some (CombineSpaced [])) [] closureRes 2] 2]
            [''x'' \<mapsto> Some StringType], cp_x) \<and>
   enclosed cp_x ''x'' = None \<and>
   compilePrimary nop_registry Map.empty cp_x_rebound inner_closure =
     Inr (CombineClosure [put_x_op] [''x'' \<mapsto> Some ClosureType], cp_x_rebound) \<and>
   enclosed cp_x_rebound ''x'' = None"
proof -
  have b1: "\<exists>f\<in>set (scopes cp_x). lookupType f ''x'' \<noteq> None"
    by (simp add: cp_x_def lookupType_def)
  have b2: "\<exists>f\<in>set (scopes cp_x_rebound). lookupType f ''x'' \<noteq> None"
    by (simp add: cp_x_rebound_def lookupType_def)
  from transitive_capture [OF wellBehaved_nop nested_compiles [unfolded nested_closure_def]
      ref_nested [unfolded nested_closure_def] b1]
    transitive_capture [OF wellBehaved_nop inner_compiles_rebound [unfolded inner_closure_def]
      ref_inner [unfolded inner_closure_def] b2]
    nested_compiles inner_compiles_rebound
  show ?thesis by (simp add: cp_x_def cp_x_rebound_def)
qed

text \<open>C1, at the input \<open>{ f; {} }\<close> with \<open>fn-f\<close> bound to a closure in the root scope: the
  body of the inner closure is empty and resolves no name, yet the capture attached to its
  op holds \<open>fn-f\<close>, which the enclosing closure had captured before.\<close>

theorem inner_closure_inherits_capture:
  "Compile Map.empty Map.empty ''n'' ''{ f; {} }'' call_then_closure [''fn-f'' \<mapsto> Some ClosureType] =
     Inr (Some (CombineChunk [CombinePipeline [CombineForm
       (CombineClosure
          [CombinePipeline [CombineForm (MakeString ''f'') (Some (CombineSpaced [])) []
             (emptyResolution\<lparr>commandType := commandDefinedFunction\<rparr>) 2] 2,
           CombinePipeline [CombineForm
             (CombineClosure [] [''fn-f'' \<mapsto> Some ClosureType])
             (Some (CombineSpaced [])) [] closureRes 5] 5]
          [''fn-f'' \<mapsto> Some ClosureType])
       (Some (CombineSpaced [])) [] closureRes 0] 0]), None)"
  apply (simp add: Compile_def compileChunk_def call_then_closure_def form_of_def empty_closure_def
      startCompile_def pushScope_def popScope_def compilePrimary_merge_def compileForm_switch_def
      resolveCommand_def ResolveVar_def lookupType_def closureRes_def)
  apply (auto simp: fun_eq_iff)
  done

text \<open>C4, at the input \<open>{ put $x; var x; {} }\<close> with \<open>x\<close> bound in the root scope and \<open>var\<close>
  the special form that declares a variable: the body references \<open>x\<close>, resolved in the root
  frame, and binds \<open>x\<close> afterwards, yet the capture of the closure is empty; the empty inner
  closure took \<open>x\<close> with it, and the merge left it out because \<open>x\<close> is bound locally by
  then.\<close>

theorem reference_then_bind_loses_capture:
  "Compile [''var'' \<mapsto> var_special] Map.empty ''n'' ''{ put $x; var x; {} }''
      reference_bind_closure [''x'' \<mapsto> Some StringType] =
     Inr (Some (CombineChunk [CombinePipeline [CombineForm
       (CombineClosure
          [put_x_op, var_x_op,
           CombinePipeline [CombineForm
             (CombineClosure [] [''x'' \<mapsto> Some StringType])
             (Some (CombineSpaced [])) [] closureRes 19] 19]
          Map.empty)
       (Some (CombineSpaced [])) [] closureRes 0] 0]), None)"
  apply (simp add: Compile_def compileChunk_def reference_bind_closure_def form_of_def
      put_x_def put_x_op_def var_x_def var_x_op_def var_special_def pushVar_def
      startCompile_def pushScope_def popScope_def compilePrimary_merge_def compileForm_switch_def
      resolveCommand_def ResolveVar_def lookupType_def closureRes_def makeVar_def mustResolveVar_def)
  apply (auto simp: fun_eq_iff)
  done

section \<open>Failures\<close>

lemma unbound_bindings:
  "unbound x cp \<longleftrightarrow> list_all (\<lambda>b. b = None \<or> b = Some None) (bindingsOf x cp)"
proof -
  have "lookupType f x = None \<longleftrightarrow> f x = None \<or> f x = Some None" for f :: scope
    by (cases "f x") (auto simp: lookupType_def)
  then show ?thesis
    by (simp add: unbound_def bindingsOf_def list_all_iff)
qed

lemma keeps_unbound: "keeps x cp cp' \<Longrightarrow> unbound x cp \<Longrightarrow> unbound x cp'"
  by (simp add: unbound_bindings keeps_def)

lemma unbound_pushScope: "unbound x cp \<Longrightarrow> unbound x (pushScope cp)"
  by (simp add: unbound_def pushScope_def lookupType_def)

lemma ResolveVar_unbound':
  assumes "unbound x cp"
  shows "ResolveVar cp x = (None, cp)"
proof -
  have "lookupType (scopes cp ! i) x = None" if "i < length (scopes cp)" for i
    using assms that by (simp add: unbound_def list_all_length)
  then have "fst (ResolveVar cp x) = None"
    by (simp add: ResolveVar_def ResolveVar_loop_None)
  moreover from this have "snd (ResolveVar cp x) = cp"
    by (simp add: ResolveVar_def ResolveVar_loop_None_state)
  ultimately show ?thesis by (simp add: prod_eq_iff)
qed

lemma makeVar_unbound: "unbound x cp \<Longrightarrow> makeVar cp x p = Inr (r, cp') \<Longrightarrow> False"
  by (simp add: makeVar_def mustResolveVar_def ResolveVar_unbound')

text \<open>A chunk that references a variable that the root scope does not bind never compiles
  to an op, whatever stands around the reference.\<close>

lemma reference_unbound_fails:
  assumes wb: "wellBehaved bs x"
  shows "refPipeline bs False x pn \<Longrightarrow> unbound x cp \<Longrightarrow>
           compilePipeline bs bf cp pn = Inr (r3, cp') \<Longrightarrow> False"
    and "refForm bs False x fm \<Longrightarrow> unbound x cp \<Longrightarrow>
           compileForm bs bf cp fm = Inr (r5, cp') \<Longrightarrow> False"
    and "refRedir bs False x rd \<Longrightarrow> unbound x cp \<Longrightarrow>
           compileRedir bs bf cp rd = Inr (r7, cp') \<Longrightarrow> False"
    and "refCompound bs False x tn \<Longrightarrow> unbound x cp \<Longrightarrow>
           compileCompound bs bf cp tn = Inr (r11, cp') \<Longrightarrow> False"
    and "refSubscript bs False x sn \<Longrightarrow> unbound x cp \<Longrightarrow>
           compileSubscript bs bf cp sn = Inr (r13, cp') \<Longrightarrow> False"
    and "refPrimary bs False x pr \<Longrightarrow> unbound x cp \<Longrightarrow>
           compilePrimary bs bf cp pr = Inr (r15, cp') \<Longrightarrow> False"
proof (induction arbitrary: cp r3 cp' and cp r5 cp' and cp r7 cp' and cp r11 cp' and cp r13 cp'
    and cp r15 cp'
    rule: refPipeline_refForm_refRedir_refCompound_refSubscript_refPrimary.inducts)
  case (refStage fm fns p)
  from refStage.prems(2) obtain ops where
    "compileForms bs bf cp fns = Inr (ops, cp')" by (auto split: sum.splits)
  from compileForms_member [OF wb this refStage.hyps(1)] obtain cpa op cpb where
    k1: "keeps x cp cpa" and c: "compileForm bs bf cpa fm = Inr (op, cpb)" by blast
  from refStage.IH(2) [OF keeps_unbound [OF k1 refStage.prems(1)] c] show ?case .
next
  case (refCommandName nm p cpos sg pp args redirs)
  then show ?case by simp
next
  case (refCommand command p cpos sg args redirs)
  from compileForm_command_parts [OF wb refCommand.prems(2)] obtain cmdOp cp1 where
    a: "compilePrimary bs bf cp command = Inr (cmdOp, cp1)" by blast
  from refCommand.IH(2) [OF refCommand.prems(1) a] show ?case .
next
  case (refRedirection rd redirs p cmd args)
  obtain cpos sg nodes where cmd: "cmd = CompoundNode cpos sg nodes" by (cases cmd) auto
  from compileForm_parts [OF wb refRedirection.prems(2) [unfolded cmd]]
  obtain command cmdOp cp1 res cp2 ports cp3 where
    a: "compilePrimary bs bf cp command = Inr (cmdOp, cp1)" and
    b: "compileForm_switch bs bf cp1 cpos command = Inr (res, cp2)" and
    d: "compileRedirs bs bf cp2 (replicate (unat (nports 0 redirs)) None) redirs = Inr (ports, cp3)"
    by blast
  from keeps_unbound [OF compile_keeps(15) [OF wb a] refRedirection.prems(1)]
  have "unbound x cp1" .
  from keeps_unbound [OF keeps_switch [OF b] this] have u2: "unbound x cp2" .
  from compileRedirs_member [OF wb d refRedirection.hyps(1)] obtain cpa op cpb where
    k1: "keeps x cp2 cpa" and c: "compileRedir bs bf cpa rd = Inr (op, cpb)" by blast
  from refRedirection.IH(2) [OF keeps_unbound [OF k1 u2] c] show ?case .
next
  case (refArgument tn tns command p cpos sg redirs)
  from compileForm_command_parts [OF wb refArgument.prems(2)] obtain cmdOp cp1 res cp2 ports cp3 where
    a: "compilePrimary bs bf cp command = Inr (cmdOp, cp1)" and
    b: "compileForm_switch bs bf cp1 cpos command = Inr (res, cp2)" and
    d: "compileRedirs bs bf cp2 (replicate (unat (nports 0 redirs)) None) redirs = Inr (ports, cp3)" and
    e: "commandType res \<noteq> commandBuiltinSpecial \<longrightarrow>
          (\<exists>tlist. compileSpaced bs bf cp3 (SpacedNode tns) = Inr (tlist, cp'))"
    by blast
  from switch_notSpecial [OF b refArgument.IH(3)] e obtain ops where
    f: "compileCompounds_loop bs bf cp3 tns = Inr (ops, cp')"
    by (auto split: sum.splits)
  from keeps_unbound [OF compile_keeps(15) [OF wb a] refArgument.prems(1)]
  have "unbound x cp1" .
  from keeps_unbound [OF keeps_switch [OF b] this] have "unbound x cp2" .
  from keeps_unbound [OF compile_keeps(6) [OF wb d] this] have u3: "unbound x cp3" .
  from compileCompounds_loop_member [OF wb f refArgument.hyps(1)] obtain cpa op cpb where
    k1: "keeps x cp3 cpa" and c: "compileCompound bs bf cpa tn = Inr (op, cpb)" by blast
  from refArgument.IH(2) [OF keeps_unbound [OF k1 u3] c] show ?case .
next
  case (refFilename fname p fd flag)
  from refFilename.prems(2) obtain fop where
    "compileCompound bs bf cp fname = Inr (fop, cp')" by (auto split: sum.splits)
  from refFilename.IH(2) [OF refFilename.prems(1) this] show ?case .
next
  case (refSigil c p sns)
  then show ?case by simp
next
  case (refPart sn sns p sg)
  from refPart.prems(2) obtain ops cp1 where
    a: "compileSubscripts bs bf cp sns = Inr (ops, cp1)"
    by (auto split: sum.splits)
  from compileSubscripts_member [OF wb a refPart.hyps(1)] obtain cpa op cpb where
    k1: "keeps x cp cpa" and c: "compileSubscript bs bf cpa sn = Inr (op, cpb)" by blast
  from refPart.IH(2) [OF keeps_unbound [OF k1 refPart.prems(1)] c] show ?case .
next
  case (refLeft left right)
  from refLeft.prems(2) obtain lop cp1 where
    "compilePrimary bs bf cp left = Inr (lop, cp1)"
    by (cases right) (auto split: sum.splits)
  from refLeft.IH(2) [OF refLeft.prems(1) this] show ?case .
next
  case (refRight right left)
  from refRight.prems(2) obtain lop cp1 rop where
    a: "compilePrimary bs bf cp left = Inr (lop, cp1)" and
    b: "compileCompound bs bf cp1 right = Inr (rop, cp')"
    by (auto split: sum.splits)
  from refRight.IH(2) [OF keeps_unbound [OF compile_keeps(15) [OF wb a] refRight.prems(1)] b]
  show ?case .
next
  case (refVariable p)
  then show ?case by (auto dest: makeVar_unbound)
next
  case (refTableList tn lst p dict)
  from refTableList.prems(2) obtain ops cp1 where
    a: "compileCompounds_loop bs bf cp lst = Inr (ops, cp1)"
    by (auto split: sum.splits)
  from compileCompounds_loop_member [OF wb a refTableList.hyps(1)] obtain cpa op cpb where
    k1: "keeps x cp cpa" and c: "compileCompound bs bf cpa tn = Inr (op, cpb)" by blast
  from refTableList.IH(2) [OF keeps_unbound [OF k1 refTableList.prems(1)] c] show ?case .
next
  case (refTableKey k v dict p lst)
  from refTableKey.prems(2) obtain lop cp1 rest where
    a: "compileCompounds bs bf cp lst = Inr (lop, cp1)" and
    b: "compileTablePairs bs bf cp1 dict = Inr (rest, cp')"
    by (auto split: sum.splits)
  from keeps_unbound [OF compile_keeps(9) [OF wb a] refTableKey.prems(1)]
  have u1: "unbound x cp1" .
  from compileTablePairs_member [OF wb b refTableKey.hyps(1)] obtain cpa kOp cpb where
    k1: "keeps x cp1 cpa" and ck: "compileCompound bs bf cpa k = Inr (kOp, cpb)" by blast
  from refTableKey.IH(2) [OF keeps_unbound [OF k1 u1] ck] show ?case .
next
  case (refTableValue k v dict p lst)
  from refTableValue.prems(2) obtain lop cp1 rest where
    a: "compileCompounds bs bf cp lst = Inr (lop, cp1)" and
    b: "compileTablePairs bs bf cp1 dict = Inr (rest, cp')"
    by (auto split: sum.splits)
  from keeps_unbound [OF compile_keeps(9) [OF wb a] refTableValue.prems(1)]
  have u1: "unbound x cp1" .
  from compileTablePairs_member [OF wb b refTableValue.hyps(1)] obtain cpa kOp cpb vOp cpc where
    k1: "keeps x cp1 cpa" and ck: "compileCompound bs bf cpa k = Inr (kOp, cpb)" and
    cv: "compileCompound bs bf cpb v = Inr (vOp, cpc)" by blast
  from keeps_unbound [OF compile_keeps(11) [OF wb ck] keeps_unbound [OF k1 u1]]
  have "unbound x cpb" .
  from refTableValue.IH(2) [OF this cv] show ?case .
next
  case (refClosure pn pns p)
  from refClosure.prems(2) obtain ops cp1 where
    body: "compilePipelines bs bf (pushScope cp) pns = Inr (ops, cp1)"
    by (auto split: sum.splits)
  from compilePipelines_member [OF wb body refClosure.hyps(1)] obtain cpa r cpb where
    k1: "keeps x (pushScope cp) cpa" and
    c: "compilePipeline bs bf cpa pn = Inr (r, cpb)" by blast
  from refClosure.IH(2) [OF keeps_unbound [OF k1 unbound_pushScope [OF refClosure.prems(1)]] c]
  show ?case .
next
  case (refList tn tns p)
  from refList.prems(2) obtain ops where
    a: "compileCompounds_loop bs bf cp tns = Inr (ops, cp')"
    by (auto split: sum.splits)
  from compileCompounds_loop_member [OF wb a refList.hyps(1)] obtain cpa op cpb where
    k1: "keeps x cp cpa" and c: "compileCompound bs bf cpa tn = Inr (op, cpb)" by blast
  from refList.IH(2) [OF keeps_unbound [OF k1 refList.prems(1)] c] show ?case .
next
  case (refChanCapture pn p)
  from refChanCapture.prems(2) obtain op where
    "compilePipeline bs bf cp pn = Inr (op, cp')" by (auto split: sum.splits)
  from refChanCapture.IH(2) [OF refChanCapture.prems(1) this] show ?case .
next
  case (refStatusCapture pn p)
  from refStatusCapture.prems(2) refStatusCapture.IH(2) [OF refStatusCapture.prems(1)]
  show ?case by simp
qed

lemma Compile_unbound_reference:
  assumes wb: "wellBehaved bs x"
    and m: "pn \<in> set pns" and r: "refPipeline bs False x pn"
    and u: "lookupType sc x = None"
  shows "Compile bs bf nm tx (ChunkNode pns) sc \<noteq> Inr (Some op, None)"
proof
  assume "Compile bs bf nm tx (ChunkNode pns) sc = Inr (Some op, None)"
  then obtain ops cp' where
    c: "compilePipelines bs bf (startCompile nm tx sc) pns = Inr (ops, cp')"
    by (auto simp: Compile_def compileChunk_def split: sum.splits failure.splits)
  from u have u0: "unbound x (startCompile nm tx sc)"
    by (simp add: unbound_def startCompile_def)
  from compilePipelines_member [OF wb c m] obtain cpa r' cpb where
    k1: "keeps x (startCompile nm tx sc) cpa" and
    cp: "compilePipeline bs bf cpa pn = Inr (r', cpb)" by blast
  from reference_unbound_fails(1) [OF wb r keeps_unbound [OF k1 u0] cp] show False .
qed

text \<open>Every exception that the compiling functions raise holds the name and text of the
  compile call, so the error that \<open>Compile\<close> returns does, and it comes without an op.\<close>

lemma carries_Inr [simp]:
  "carries cp (Inr (r, cp')) \<longleftrightarrow> name cp' = name cp \<and> text' cp' = text' cp"
  by (simp add: carries_def)

lemma carries_bind:
  assumes "carries cp m"
    and "\<And>r cp1. m = Inr (r, cp1) \<Longrightarrow> carries cp1 (k r cp1)"
  shows "carries cp (case m of Inl e \<Rightarrow> Inl e | Inr (r, cp1) \<Rightarrow> k r cp1)"
proof (cases m)
  case (Inl f)
  with assms(1) show ?thesis by (cases f) (simp_all add: carries_def)
next
  case (Inr b)
  obtain r cp1 where b: "b = (r, cp1)" by (cases b)
  from assms(1) Inr b have n: "name cp1 = name cp" "text' cp1 = text' cp" by simp_all
  from assms(2) [of r cp1] Inr b have "carries cp1 (k r cp1)" by simp
  with n have "carries cp (k r cp1)"
    by (auto simp: carries_def split: sum.splits failure.splits)
  with Inr b show ?thesis by simp
qed

lemma ResolveVar_context:
  "ResolveVar cp nm = (t, cp') \<Longrightarrow> name cp' = name cp \<and> text' cp' = text' cp"
  using ResolveVar_fields(1,2) [of cp nm] by simp

lemma carries_resolveCommand:
  "resolveCommand bs bf cp nm cr = (r, cp') \<Longrightarrow> name cp' = name cp \<and> text' cp' = text' cp"
  by (auto simp: resolveCommand_def split: prod.splits dest: ResolveVar_context)

lemma carries_makeVar: "carries cp (makeVar cp nm p)"
  by (auto simp: carries_def makeVar_def mustResolveVar_def errorf_def
      split: prod.splits option.splits dest: ResolveVar_context)

lemma carries_switch: "carries cp (compileForm_switch bs bf cp cpos command)"
  by (cases command)
     (auto simp: carries_def compileForm_switch_def errorf_def split: prod.splits
           dest: carries_resolveCommand)

lemma carries_merge: "carries cp (case compilePrimary_merge cp enc of Inl e \<Rightarrow> Inl e | Inr cp2 \<Rightarrow> Inr (op, cp2))"
  by (simp add: carries_def compilePrimary_merge_def)

lemma carries_map:
  "carries cp m \<Longrightarrow> carries cp (case m of Inl e \<Rightarrow> Inl e | Inr (r, cp1) \<Rightarrow> Inr (g r, cp1))"
  by (auto simp: carries_def split: sum.splits failure.splits)

lemma compile_carries:
  assumes rc: "reportsContext bs"
  shows "carries cp (compilePipelines bs bf cp pns)"
    and "carries cp (compileClosure bs bf cp cn)"
    and "carries cp (compilePipeline bs bf cp pn)"
    and "carries cp (compileForms bs bf cp fns)"
    and "carries cp (compileForm bs bf cp fm)"
    and "carries cp (compileRedirs bs bf cp ports rds)"
    and "carries cp (compileRedir bs bf cp rd)"
    and "carries cp (compileCompounds_loop bs bf cp tns)"
    and "carries cp (compileCompounds bs bf cp tns)"
    and "carries cp (compileSpaced bs bf cp sp)"
    and "carries cp (compileCompound bs bf cp tn)"
    and "carries cp (compileSubscripts bs bf cp sns)"
    and "carries cp (compileSubscript bs bf cp sn)"
    and "carries cp (compileTablePairs bs bf cp tps)"
    and "carries cp (compilePrimary bs bf cp pr)"
  using rc
proof (induction bs bf cp pns and bs bf cp cn and bs bf cp pn and bs bf cp fns and bs bf cp fm
    and bs bf cp ports rds and bs bf cp rd and bs bf cp tns and bs bf cp tns and bs bf cp sp
    and bs bf cp tn and bs bf cp sns and bs bf cp sn and bs bf cp tps and bs bf cp pr
    rule: compile_induct)
  case (1 bs bf cp)
  then show ?case by simp
next
  case (2 bs bf cp pn pns)
  show ?case
    unfolding compilePipelines.simps
    by (rule carries_bind [OF "2.IH"(1) [OF "2.prems"]])
       (auto intro!: carries_map "2.IH"(2) [OF _ refl "2.prems"])
next
  case (3 bs bf cp pns)
  from "3.IH" [OF "3.prems"] show ?case
    by (auto simp: carries_def pushScope_def popScope_def split: sum.splits failure.splits)
next
  case (4 bs bf cp p fns)
  from "4.IH" [OF "4.prems"] show ?case
    by (auto simp: carries_def split: sum.splits failure.splits)
next
  case (5 bs bf cp)
  then show ?case by simp
next
  case (6 bs bf cp fn fns)
  show ?case
    unfolding compileForms.simps
    by (rule carries_bind [OF "6.IH"(1) [OF "6.prems"]])
       (auto intro!: carries_map "6.IH"(2) [OF _ refl "6.prems"])
next
  case (7 bs bf cp p cpos sigil nodes args redirs)
  show ?case
  proof (cases "\<exists>command. nodes = [SubscriptNode command None]")
    case False
    then have "compileForm bs bf cp (FormNode p (CompoundNode cpos sigil nodes) args redirs) =
                Inl (errorf cp cpos ''command must be a string or closure'')"
      by (auto split: list.splits SubscriptNode.splits option.splits)
    then show ?thesis by (simp add: carries_def errorf_def)
  next
    case True
    then obtain command where n: "nodes = [SubscriptNode command None]" by blast
    have tail: "carries cp3
        (if commandType res = commandBuiltinSpecial then
           (case builtinSpecial res of
              None \<Rightarrow> Inl (RuntimePanic NilDereference)
            | Some bi \<Rightarrow>
               (case compile bi cp3 (FormNode p (CompoundNode cpos sigil nodes) args redirs) of
                  Inl e \<Rightarrow> Inl e
                | Inr (sop, cp4) \<Rightarrow>
                    Inr (CombineForm cmdOp None ports (res\<lparr>specialOp := Some sop\<rparr>) p, cp4)))
         else
           (case compileSpaced bs bf cp3 args of
              Inl e \<Rightarrow> Inl e
            | Inr (tlist, cp4) \<Rightarrow> Inr (CombineForm cmdOp (Some tlist) ports res p, cp4)))"
      if a: "compilePrimary bs bf cp command = Inr (cmdOp, cp1)"
        and b: "compileForm_switch bs bf cp1 cpos command = Inr (res, cp2)"
        and d: "compileRedirs bs bf cp2 (replicate (unat (nports 0 redirs)) None) redirs = Inr (ports, cp3)"
      for cmdOp cp1 res cp2 ports cp3
    proof (cases "commandType res = commandBuiltinSpecial")
      case True
      show ?thesis
      proof (cases "builtinSpecial res")
        case None
        with True show ?thesis by (simp add: carries_def)
      next
        case (Some bi)
        from switch_special [OF b True Some] obtain nm where "bs nm = Some bi" by blast
        with "7.prems" have "carries cp3 (compile bi cp3 (FormNode p (CompoundNode cpos sigil nodes) args redirs))"
          unfolding reportsContext_def by blast
        from carries_map [OF this] True Some show ?thesis by simp
      qed
    next
      case False
      from "7.IH"(3) [OF n refl refl refl a refl b refl d refl False "7.prems"]
      have "carries cp3 (compileSpaced bs bf cp3 args)" .
      from carries_map [OF this] False show ?thesis by simp
    qed
    show ?thesis
      unfolding compileForm.simps n list.case SubscriptNode.case option.case
      apply (rule carries_bind [OF "7.IH"(1) [OF n refl refl refl "7.prems"]])
      apply (rule carries_bind [OF carries_switch])
      apply (rule carries_bind)
       apply (rule "7.IH"(2) [OF n refl refl refl _ refl _ refl "7.prems"], assumption, assumption)
      apply (rule tail [unfolded n], assumption, assumption, assumption)
      done
  qed
next
  case (8 bs bf cp ports)
  then show ?case by simp
next
  case (9 bs bf cp ports rd rds)
  show ?case
    unfolding compileRedirs.simps
  proof (rule carries_bind [OF "9.IH"(1) [OF "9.prems"]])
    fix r cp1
    assume a: "compileRedir bs bf cp rd = Inr (r, cp1)"
    show "carries cp1 (if unat (Fd rd) < length ports
            then compileRedirs bs bf cp1 (ports[unat (Fd rd) := Some r]) rds
            else Inl (RuntimePanic IndexOutOfRange))"
    proof (cases "unat (Fd rd) < length ports")
      case True
      from "9.IH"(2) [OF a refl True "9.prems"] True show ?thesis by simp
    next
      case False
      then show ?thesis by (simp add: carries_def)
    qed
  qed
next
  case (10 bs bf cp fd)
  then show ?case by simp
next
  case (11 bs bf cp fd oldFd)
  then show ?case by simp
next
  case (12 bs bf cp p fd flag fname)
  from carries_map [OF "12.IH" [OF "12.prems"]] show ?case by simp
next
  case (13 bs bf cp fd)
  then show ?case by (simp add: carries_def)
next
  case (14 bs bf cp)
  then show ?case by simp
next
  case (15 bs bf cp tn tns)
  show ?case
    unfolding compileCompounds_loop.simps
    by (rule carries_bind [OF "15.IH"(1) [OF "15.prems"]])
       (auto intro!: carries_map "15.IH"(2) [OF _ refl "15.prems"])
next
  case (16 bs bf cp tns)
  from carries_map [OF "16.IH" [OF "16.prems"]] show ?case by simp
next
  case (17 bs bf cp tns)
  then show ?case by simp
next
  case (18 bs bf cp p sigil sns)
  show ?case
    unfolding compileCompound.simps
    by (rule carries_bind [OF "18.IH" [OF "18.prems"]])
       (auto split: Sigil.splits prod.splits dest: carries_resolveCommand)
next
  case (19 bs bf cp)
  then show ?case by simp
next
  case (20 bs bf cp sn sns)
  show ?case
    unfolding compileSubscripts.simps
    by (rule carries_bind [OF "20.IH"(1) [OF "20.prems"]])
       (auto intro!: carries_map "20.IH"(2) [OF _ refl "20.prems"])
next
  case (21 bs bf cp left)
  then show ?case by simp
next
  case (22 bs bf cp left right)
  show ?case
    unfolding compileSubscript.simps
    by (rule carries_bind [OF "22.IH"(1) [OF "22.prems"]])
       (auto intro!: carries_map "22.IH"(2) [OF _ refl "22.prems"])
next
  case (23 bs bf cp)
  then show ?case by simp
next
  case (24 bs bf cp k v tps)
  show ?case
    unfolding compileTablePairs.simps
  proof (rule carries_bind [OF "24.IH"(1) [OF "24.prems"]])
    fix kOp cp1
    assume a: "compileCompound bs bf cp k = Inr (kOp, cp1)"
    show "carries cp1
       (case compileCompound bs bf cp1 v of
          Inl e \<Rightarrow> Inl e
        | Inr (vOp, cp2) \<Rightarrow>
            (case compileTablePairs bs bf cp2 tps of
               Inl e \<Rightarrow> Inl e
             | Inr ((keys, vals), cp3) \<Rightarrow> Inr ((kOp # keys, vOp # vals), cp3)))"
    proof (rule carries_bind [OF "24.IH"(2) [OF a refl "24.prems"]])
      fix vOp cp2
      assume b: "compileCompound bs bf cp1 v = Inr (vOp, cp2)"
      from "24.IH"(3) [OF a refl b refl "24.prems"]
      show "carries cp2
         (case compileTablePairs bs bf cp2 tps of
            Inl e \<Rightarrow> Inl e
          | Inr ((keys, vals), cp3) \<Rightarrow> Inr ((kOp # keys, vOp # vals), cp3))"
        by (auto simp: carries_def split: sum.splits failure.splits prod.splits)
    qed
  qed
next
  case (25 bs bf cp p tx)
  then show ?case by simp
next
  case (26 bs bf cp p nm)
  then show ?case by (simp add: carries_makeVar)
next
  case (27 bs bf cp p lst dict)
  show ?case
    unfolding compilePrimary.simps
  proof (rule carries_bind [OF "27.IH"(1) [OF "27.prems"]])
    fix lop cp1
    assume a: "compileCompounds bs bf cp lst = Inr (lop, cp1)"
    from "27.IH"(2) [OF a refl "27.prems"]
    show "carries cp1
       (case compileTablePairs bs bf cp1 dict of
          Inl e \<Rightarrow> Inl e
        | Inr ((keys, vals), cp2) \<Rightarrow> Inr (CombineTable lop keys vals p, cp2))"
      by (auto simp: carries_def split: sum.splits failure.splits prod.splits)
  qed
next
  case (28 bs bf cp p cn)
  from "28.IH" [OF "28.prems"] show ?case
    by (auto simp: carries_def compilePrimary_merge_def split: sum.splits failure.splits if_splits)
next
  case (29 bs bf cp p sn)
  then show ?case by simp
next
  case (30 bs bf cp p pn)
  from carries_map [OF "30.IH" [OF "30.prems"]] show ?case by simp
next
  case (31 bs bf cp p pn)
  then show ?case by simp
next
  case (32 bs bf cp p ty)
  then show ?case by (simp add: carries_def)
qed

lemma Compile_error_context:
  assumes rc: "reportsContext bs"
    and c: "Compile bs bf nm tx ch sc = Inr (op, Some e)"
  shows "op = None \<and> errName e = nm \<and> errText e = tx"
proof -
  obtain pns where ch: "ch = ChunkNode pns" by (cases ch) auto
  from c ch have f: "compilePipelines bs bf (startCompile nm tx sc) pns = Inl (Exception e)"
    and o: "op = None"
    by (auto simp: Compile_def compileChunk_def split: sum.splits failure.splits)
  from compile_carries(1) [OF rc, of "startCompile nm tx sc" bf pns] f
  have "errName e = nm \<and> errText e = tx"
    by (simp add: carries_def startCompile_def)
  with o show ?thesis by simp
qed

text \<open>C7. A reference to a variable that no frame of the scope stack binds fails: resolution
  finds nothing, the exception raised is \<open>undefined variable $<name>\<close> with the name and text
  of the compile call and the position of the reference, and an exception that reaches
  \<open>Compile\<close> is returned as its single error, with no op.\<close>

theorem undefined_variable_fails:
  assumes "\<forall>f\<in>set (scopes cp). f nm = None"
  shows "ResolveVar cp nm = (None, cp) \<and>
         mustResolveVar cp nm p =
           Inl (Exception \<lparr>errName = name cp, errText = text' cp, errPos = p,
                           errMsg = ''undefined variable $'' @ nm\<rparr>) \<and>
         compilePrimary bs bf cp (VariablePrimary p nm) =
           Inl (Exception \<lparr>errName = name cp, errText = text' cp, errPos = p,
                           errMsg = ''undefined variable $'' @ nm\<rparr>) \<and>
         (\<forall>n0 t0 sc ch e. compileChunk bs bf (startCompile n0 t0 sc) ch = Inl (Exception e) \<longrightarrow>
            Compile bs bf n0 t0 ch sc = Inr (None, Some e))"
  using ResolveVar_unbound [OF assms]
  by (simp add: mustResolveVar_def makeVar_def errorf_def Compile_def)

lemma echo_y_fails:
  "compileChunk Map.empty Map.empty (startCompile ''n'' ''{echo $y}'' Map.empty) echo_y =
     Inl (Exception \<lparr>errName = ''n'', errText = ''{echo $y}'', errPos = 6,
                      errMsg = ''undefined variable $y''\<rparr>)"
  by (simp add: compileChunk_def echo_y_def form_of_def startCompile_def pushScope_def
      compileForm_switch_def resolveCommand_def ResolveVar_def lookupType_def makeVar_def
      mustResolveVar_def errorf_def)

theorem undefined_variable_fails_witness:
  "compilePrimary Map.empty Map.empty cp_root (VariablePrimary 6 ''y'') =
     Inl (Exception \<lparr>errName = ''n'', errText = ''t'', errPos = 6,
                      errMsg = ''undefined variable $y''\<rparr>) \<and>
   Compile Map.empty Map.empty ''n'' ''{echo $y}'' echo_y Map.empty =
     Inr (None, Some \<lparr>errName = ''n'', errText = ''{echo $y}'', errPos = 6,
                        errMsg = ''undefined variable $y''\<rparr>)"
proof -
  have a: "\<forall>f\<in>set (scopes cp_root). f ''y'' = None" by (simp add: cp_root_def)
  from undefined_variable_fails [OF a, of 6 Map.empty Map.empty] echo_y_fails
  show ?thesis by (simp add: cp_root_def)
qed

text \<open>C5. A primary of an unknown kind and a redirection of an unknown variant panic at once,
  also where the primary is the command of a form; the panic is not an exception of
  \<open>util.Panic\<close>, so \<open>Compile\<close> does not return it as an error: it passes through.\<close>

theorem bad_node_panics:
  "compilePrimary bs bf cp (BadPrimary p typ) = Inl (RuntimePanic (BadPrimaryNodeType typ)) \<and>
   compileRedir bs bf cp (BadRedir fd) = Inl (RuntimePanic BadRedirType) \<and>
   compileForm bs bf cp (FormNode fp (CompoundNode cpos sg [SubscriptNode (BadPrimary p typ) None]) args redirs)
     = Inl (RuntimePanic (BadPrimaryNodeType typ)) \<and>
   (\<forall>v. compileChunk bs bf (startCompile nm tx sc) ch = Inl (RuntimePanic v) \<longrightarrow>
        Compile bs bf nm tx ch sc = Inl v)"
  by (simp add: Compile_def)

lemma bad_chunk_compileChunk:
  "compileChunk Map.empty Map.empty (startCompile ''n'' ''t'' Map.empty) bad_chunk =
     Inl (RuntimePanic (BadPrimaryNodeType 99))"
  by (simp add: compileChunk_def bad_chunk_def compileForm_switch_def resolveCommand_def
      ResolveVar_def startCompile_def lookupType_def emptyResolution_def)

theorem bad_node_panics_witness:
  "Compile Map.empty Map.empty ''n'' ''t'' bad_chunk Map.empty = Inl (BadPrimaryNodeType 99)"
  using bad_chunk_compileChunk
    bad_node_panics [where bs = "Map.empty" and bf = "Map.empty" and nm = "''n''"
      and tx = "''t''" and sc = "Map.empty" and ch = bad_chunk]
  by simp

end
